theory Spec2Isabelle
  imports Complex_Main
begin

section \<open>Ant locomotion environments (maml\_rl/envs/mujoco/ant.py)\<close>

text \<open>
  The module defines a base class \<open>AntEnv\<close> (cached action scaling, observation
  assembly) and three task variants \<open>AntVelEnv\<close>, \<open>AntDirEnv\<close>, \<open>AntPosEnv\<close>
  (step, sample\_tasks, reset\_task). Object fields become record fields, every method takes
  the object and returns it updated, and every raise is an \<open>Inl\<close> value returned next to
  the object as the raise left it.
\<close>

subsection \<open>Floating-point values\<close>

text \<open>
  A numpy float is a finite value, one of the two infinities, or NaN. Finite values are
  idealised as reals: rounding and the overflow of finite arithmetic are not part of the
  model, and a zero divisor is taken as the positive zero. Infinities and NaN propagate as
  in IEEE 754, and every comparison with NaN is false.
\<close>

datatype fl = Fin real | PInf | NInf | NaN

datatype py_error = KeyError | IndexError | ValueError | PhysicsError

fun isfinite :: "fl \<Rightarrow> bool" where
  "isfinite (Fin x) = True"
| "isfinite PInf = False"
| "isfinite NInf = False"
| "isfinite NaN = False"

fun isnan :: "fl \<Rightarrow> bool" where
  "isnan NaN = True"
| "isnan (Fin x) = False"
| "isnan PInf = False"
| "isnan NInf = False"

fun fneg :: "fl \<Rightarrow> fl" where
  "fneg (Fin x) = Fin (- x)"
| "fneg PInf = NInf"
| "fneg NInf = PInf"
| "fneg NaN = NaN"

fun fabs :: "fl \<Rightarrow> fl" where
  "fabs (Fin x) = Fin \<bar>x\<bar>"
| "fabs PInf = PInf"
| "fabs NInf = PInf"
| "fabs NaN = NaN"

fun fadd :: "fl \<Rightarrow> fl \<Rightarrow> fl" where
  "fadd (Fin x) (Fin y) = Fin (x + y)"
| "fadd (Fin x) PInf = PInf"
| "fadd (Fin x) NInf = NInf"
| "fadd PInf (Fin y) = PInf"
| "fadd PInf PInf = PInf"
| "fadd PInf NInf = NaN"
| "fadd NInf (Fin y) = NInf"
| "fadd NInf PInf = NaN"
| "fadd NInf NInf = NInf"
| "fadd NaN y = NaN"
| "fadd x NaN = NaN"

fun fsub :: "fl \<Rightarrow> fl \<Rightarrow> fl" where
  "fsub (Fin x) (Fin y) = Fin (x - y)"
| "fsub (Fin x) PInf = NInf"
| "fsub (Fin x) NInf = PInf"
| "fsub PInf (Fin y) = PInf"
| "fsub PInf PInf = NaN"
| "fsub PInf NInf = PInf"
| "fsub NInf (Fin y) = NInf"
| "fsub NInf PInf = NInf"
| "fsub NInf NInf = NaN"
| "fsub NaN y = NaN"
| "fsub x NaN = NaN"

definition signed_inf :: "bool \<Rightarrow> fl" where
  "signed_inf positive = (if positive then PInf else NInf)"

fun fmul :: "fl \<Rightarrow> fl \<Rightarrow> fl" where
  "fmul (Fin x) (Fin y) = Fin (x * y)"
| "fmul (Fin x) PInf = (if x = 0 then NaN else signed_inf (0 < x))"
| "fmul (Fin x) NInf = (if x = 0 then NaN else signed_inf (x < 0))"
| "fmul PInf (Fin y) = (if y = 0 then NaN else signed_inf (0 < y))"
| "fmul NInf (Fin y) = (if y = 0 then NaN else signed_inf (y < 0))"
| "fmul PInf PInf = PInf"
| "fmul PInf NInf = NInf"
| "fmul NInf PInf = NInf"
| "fmul NInf NInf = PInf"
| "fmul NaN y = NaN"
| "fmul x NaN = NaN"

fun fdiv :: "fl \<Rightarrow> fl \<Rightarrow> fl" where
  "fdiv (Fin x) (Fin y) =
     (if y = 0 then (if x = 0 then NaN else signed_inf (0 < x)) else Fin (x / y))"
| "fdiv (Fin x) PInf = Fin 0"
| "fdiv (Fin x) NInf = Fin 0"
| "fdiv PInf (Fin y) = signed_inf (0 \<le> y)"
| "fdiv NInf (Fin y) = signed_inf (y < 0)"
| "fdiv PInf PInf = NaN"
| "fdiv PInf NInf = NaN"
| "fdiv NInf PInf = NaN"
| "fdiv NInf NInf = NaN"
| "fdiv NaN y = NaN"
| "fdiv x NaN = NaN"

text \<open>\<open>x <= y\<close>, \<open>x >= y\<close> and \<open>x == y\<close> on floats.\<close>

fun fle :: "fl \<Rightarrow> fl \<Rightarrow> bool" where
  "fle (Fin x) (Fin y) = (x \<le> y)"
| "fle (Fin x) PInf = True"
| "fle (Fin x) NInf = False"
| "fle PInf (Fin y) = False"
| "fle PInf PInf = True"
| "fle PInf NInf = False"
| "fle NInf (Fin y) = True"
| "fle NInf PInf = True"
| "fle NInf NInf = True"
| "fle NaN y = False"
| "fle x NaN = False"

definition fge :: "fl \<Rightarrow> fl \<Rightarrow> bool" where
  "fge x y = fle y x"

definition feq :: "fl \<Rightarrow> fl \<Rightarrow> bool" where
  "feq x y = (\<not> isnan x \<and> \<not> isnan y \<and> x = y)"

text \<open>\<open>np.square\<close>, \<open>np.maximum\<close>, \<open>np.minimum\<close>, \<open>np.clip\<close> and \<open>np.sum\<close>.\<close>

definition np_square :: "fl \<Rightarrow> fl" where
  "np_square x = fmul x x"

definition np_maximum :: "fl \<Rightarrow> fl \<Rightarrow> fl" where
  "np_maximum a b = (if isnan a \<or> isnan b then NaN else if fle a b then b else a)"

definition np_minimum :: "fl \<Rightarrow> fl \<Rightarrow> fl" where
  "np_minimum a b = (if isnan a \<or> isnan b then NaN else if fle a b then a else b)"

definition np_clip :: "fl \<Rightarrow> fl \<Rightarrow> fl \<Rightarrow> fl" where
  "np_clip x lo hi = np_minimum (np_maximum x lo) hi"

definition np_sum :: "fl list \<Rightarrow> fl" where
  "np_sum xs = foldl fadd (Fin 0) xs"

text \<open>
  An arithmetic operation on two one-dimensional arrays: element by element when the
  lengths agree, an array of length one is stretched, any other pair of lengths raises
  \<open>ValueError\<close>.
\<close>

definition broadcast2 :: "(fl \<Rightarrow> fl \<Rightarrow> fl) \<Rightarrow> fl list \<Rightarrow> fl list \<Rightarrow> py_error + fl list" where
  "broadcast2 f xs ys =
     (if length xs = length ys then Inr (map2 f xs ys)
      else if length xs = 1 then Inr (map (f (hd xs)) ys)
      else if length ys = 1 then Inr (map (\<lambda>x. f x (hd ys)) xs)
      else Inl ValueError)"

subsection \<open>The physics adapter and the base environment\<close>

text \<open>
  The simulator is outside this module. What the module reads of it is a record of
  observables: \<open>sim.data.qpos\<close>, \<open>sim.data.qvel\<close>, \<open>sim.data.cfrc_ext\<close> (a matrix),
  \<open>get_body_xmat("torso")\<close> (a matrix), \<open>get_body_com("torso")\<close>,
  \<open>get_body_comvel("torso")\<close> and \<open>state_vector()\<close>.
\<close>

record physics =
  qpos :: "fl list"
  qvel :: "fl list"
  cfrc_ext :: "fl list list"
  body_xmat_torso :: "fl list list"
  body_com_torso :: "fl list"
  body_comvel_torso :: "fl list"
  state_vector :: "fl list"

text \<open>
  The fields of an \<open>AntEnv\<close> object: the simulator, the bounds of the action space
  (\<open>action_space.low\<close>, \<open>action_space.high\<close>), the field \<open>_action_scaling\<close>
  (\<open>None\<close> until computed) and the random source \<open>np_random\<close>.
\<close>

record 'g ant_env =
  sim :: physics
  action_space_low :: "fl list"
  action_space_high :: "fl list"
  self_action_scaling :: "fl list option"
  np_random :: 'g

text \<open>
  The property \<open>action_scaling\<close>: computes \<open>0.5 * (ub - lb)\<close> and stores it when the
  field is \<open>None\<close>, and returns the field.
\<close>

definition action_scaling ::
  "('g, 'z) ant_env_scheme \<Rightarrow> ('g, 'z) ant_env_scheme \<times> (py_error + fl list)" where
  "action_scaling env =
     (case self_action_scaling env of
        None \<Rightarrow>
          (let lb = action_space_low env; ub = action_space_high env
           in case broadcast2 fsub ub lb of
                Inl e \<Rightarrow> (env, Inl e)
              | Inr d \<Rightarrow>
                  (let v = map (fmul (Fin 0.5)) d
                   in (env\<lparr>self_action_scaling := Some v\<rparr>, Inr v)))
      | Some v \<Rightarrow> (env, Inr v))"

text \<open>
  \<open>get_current_obs\<close>. The narrowing \<open>astype(np.float32)\<close> acts on each entry; it is
  the parameter \<open>f32\<close>.
\<close>

definition get_current_obs :: "(fl \<Rightarrow> fl) \<Rightarrow> ('g, 'z) ant_env_scheme \<Rightarrow> fl list" where
  "get_current_obs f32 env =
     map f32
       (qpos (sim env)
        @ qvel (sim env)
        @ concat (map (map (\<lambda>c. np_clip c (Fin (- 1)) (Fin 1))) (cfrc_ext (sim env)))
        @ concat (body_xmat_torso (sim env))
        @ body_com_torso (sim env))"

text \<open>Indexing \<open>xs[i]\<close> with a non-negative literal index.\<close>

definition index_at :: "'a list \<Rightarrow> nat \<Rightarrow> py_error + 'a" where
  "index_at xs i = (if i < length xs then Inr (xs ! i) else Inl IndexError)"

text \<open>
  The expression
  \<open>np.isfinite(state).all() and state[2] >= 0.2 and state[2] <= 1.0\<close>, which the three
  \<open>step\<close> methods share word for word. \<open>and\<close> does not evaluate its right operand
  when the left one is false.
\<close>

definition notdone_of :: "fl list \<Rightarrow> py_error + bool" where
  "notdone_of state =
     (if list_all isfinite state
      then (case index_at state 2 of
              Inl e \<Rightarrow> Inl e
            | Inr s2 \<Rightarrow> Inr (fge s2 (Fin 0.2) \<and> fle s2 (Fin 1.0)))
      else Inr False)"

text \<open>
  The values of the info dictionary are floats and the task record; the dictionary is a
  map from its keys.
\<close>

datatype 't info_val = IFloat fl | ITask 't

type_synonym 't step_result = "fl list \<times> fl \<times> bool \<times> (string \<rightharpoonup> 't info_val)"

text \<open>
  \<open>forward_dynamics(action)\<close> belongs to the simulator: it is a parameter that maps the
  simulator's state and the action to the next state, with the error it raised, if any.
\<close>

type_synonym dynamics = "physics \<Rightarrow> fl list \<Rightarrow> physics \<times> py_error option"

subsection \<open>AntVelEnv\<close>

type_synonym vel_task = "string \<rightharpoonup> fl"

record 'g ant_vel_env = "'g ant_env" +
  vel_task :: vel_task
  goal_vel :: fl

text \<open>
  \<open>__init__(task)\<close>. \<open>base\<close> is the object as the simulator's constructor
  (\<open>MujocoEnv.__init__\<close>, called through \<open>AntEnv.__init__\<close>) leaves it;
  \<open>AntEnv.__init__\<close> then sets \<open>_action_scaling\<close> to \<open>None\<close>.
\<close>

definition AntVelEnv_init :: "'g ant_env \<Rightarrow> vel_task \<Rightarrow> 'g ant_vel_env" where
  "AntVelEnv_init base task =
     \<lparr>sim = sim base,
      action_space_low = action_space_low base,
      action_space_high = action_space_high base,
      self_action_scaling = None,
      np_random = np_random base,
      vel_task = task,
      goal_vel = (case task ''velocity'' of None \<Rightarrow> Fin 0.0 | Some v \<Rightarrow> v)\<rparr>"

definition AntVelEnv_step ::
  "dynamics \<Rightarrow> (fl \<Rightarrow> fl) \<Rightarrow> 'g ant_vel_env \<Rightarrow> fl list
     \<Rightarrow> 'g ant_vel_env \<times> (py_error + vel_task step_result)" where
  "AntVelEnv_step forward_dynamics f32 env action =
     (case forward_dynamics (sim env) action of
        (p, Some e) \<Rightarrow> (env\<lparr>sim := p\<rparr>, Inl e)
      | (p, None) \<Rightarrow>
          (let env1 = env\<lparr>sim := p\<rparr>
           in case index_at (body_comvel_torso (sim env1)) 0 of
                Inl e \<Rightarrow> (env1, Inl e)
              | Inr forward_vel \<Rightarrow>
                  (let forward_reward =
                         fadd (fmul (Fin (- 1.0)) (fabs (fsub forward_vel (goal_vel env1))))
                              (Fin 1.0);
                       survive_reward = Fin 0.05
                   in case action_scaling env1 of
                        (env2, Inl e) \<Rightarrow> (env2, Inl e)
                      | (env2, Inr scaling) \<Rightarrow>
                          (case broadcast2 fdiv action scaling of
                             Inl e \<Rightarrow> (env2, Inl e)
                           | Inr scaled \<Rightarrow>
                               (let ctrl_cost =
                                      fmul (fmul (Fin 0.5) (Fin 0.01))
                                           (np_sum (map np_square scaled));
                                    contact_cost =
                                      fmul (fmul (Fin 0.5) (Fin 0.001))
                                           (np_sum (map np_square
                                              (map (\<lambda>c. np_clip c (Fin (- 1)) (Fin 1))
                                                   (concat (cfrc_ext (sim env2))))));
                                    observation = get_current_obs f32 env2;
                                    reward =
                                      fadd (fsub (fsub forward_reward ctrl_cost) contact_cost)
                                           survive_reward;
                                    state = state_vector (sim env2)
                                in case notdone_of state of
                                     Inl e \<Rightarrow> (env2, Inl e)
                                   | Inr notdone \<Rightarrow>
                                       (let done = \<not> notdone;
                                            infos =
                                              [''reward_forward'' \<mapsto> IFloat forward_reward,
                                               ''reward_ctrl'' \<mapsto> IFloat (fneg ctrl_cost),
                                               ''reward_contact'' \<mapsto> IFloat (fneg contact_cost),
                                               ''reward_survive'' \<mapsto> IFloat survive_reward,
                                               ''task'' \<mapsto> ITask (vel_task env2)]
                                        in (env2, Inr (observation, reward, done, infos))))))))"

text \<open>
  \<open>np_random.uniform(low, high, size)\<close> belongs to the random source: it is a
  parameter that maps the bounds, the number of draws and the generator's state to the
  draws and the next state.
\<close>

type_synonym 'g uniform_draw = "fl \<Rightarrow> fl \<Rightarrow> nat \<Rightarrow> 'g \<Rightarrow> fl list \<times> 'g"

definition AntVelEnv_sample_tasks ::
  "'g uniform_draw \<Rightarrow> 'g ant_vel_env \<Rightarrow> nat \<Rightarrow> 'g ant_vel_env \<times> vel_task list" where
  "AntVelEnv_sample_tasks uniform env num_tasks =
     (case uniform (Fin 0.0) (Fin 3.0) num_tasks (np_random env) of
        (velocities, g) \<Rightarrow>
          (let tasks = map (\<lambda>velocity. [''velocity'' \<mapsto> velocity]) velocities
           in (env\<lparr>np_random := g\<rparr>, tasks)))"

definition AntVelEnv_reset_task ::
  "'g ant_vel_env \<Rightarrow> vel_task \<Rightarrow> 'g ant_vel_env \<times> (py_error + unit)" where
  "AntVelEnv_reset_task env task =
     (let env1 = env\<lparr>vel_task := task\<rparr>
      in case task ''velocity'' of
           None \<Rightarrow> (env1, Inl KeyError)
         | Some v \<Rightarrow> (env1\<lparr>goal_vel := v\<rparr>, Inr ()))"

subsection \<open>AntDirEnv\<close>

text \<open>The direction is an integer; in the product with a float it is converted.\<close>

type_synonym dir_task = "string \<rightharpoonup> int"

record 'g ant_dir_env = "'g ant_env" +
  dir_task :: dir_task
  goal_dir :: int

definition AntDirEnv_init :: "'g ant_env \<Rightarrow> dir_task \<Rightarrow> 'g ant_dir_env" where
  "AntDirEnv_init base task =
     \<lparr>sim = sim base,
      action_space_low = action_space_low base,
      action_space_high = action_space_high base,
      self_action_scaling = None,
      np_random = np_random base,
      dir_task = task,
      goal_dir = (case task ''direction'' of None \<Rightarrow> 1 | Some d \<Rightarrow> d)\<rparr>"

definition AntDirEnv_step ::
  "dynamics \<Rightarrow> (fl \<Rightarrow> fl) \<Rightarrow> 'g ant_dir_env \<Rightarrow> fl list
     \<Rightarrow> 'g ant_dir_env \<times> (py_error + dir_task step_result)" where
  "AntDirEnv_step forward_dynamics f32 env action =
     (case forward_dynamics (sim env) action of
        (p, Some e) \<Rightarrow> (env\<lparr>sim := p\<rparr>, Inl e)
      | (p, None) \<Rightarrow>
          (let env1 = env\<lparr>sim := p\<rparr>
           in case index_at (body_comvel_torso (sim env1)) 0 of
                Inl e \<Rightarrow> (env1, Inl e)
              | Inr forward_vel \<Rightarrow>
                  (let forward_reward = fmul (Fin (real_of_int (goal_dir env1))) forward_vel;
                       survive_reward = Fin 0.05
                   in case action_scaling env1 of
                        (env2, Inl e) \<Rightarrow> (env2, Inl e)
                      | (env2, Inr scaling) \<Rightarrow>
                          (case broadcast2 fdiv action scaling of
                             Inl e \<Rightarrow> (env2, Inl e)
                           | Inr scaled \<Rightarrow>
                               (let ctrl_cost =
                                      fmul (fmul (Fin 0.5) (Fin 0.01))
                                           (np_sum (map np_square scaled));
                                    contact_cost =
                                      fmul (fmul (Fin 0.5) (Fin 0.001))
                                           (np_sum (map np_square
                                              (map (\<lambda>c. np_clip c (Fin (- 1)) (Fin 1))
                                                   (concat (cfrc_ext (sim env2))))));
                                    observation = get_current_obs f32 env2;
                                    reward =
                                      fadd (fsub (fsub forward_reward ctrl_cost) contact_cost)
                                           survive_reward;
                                    state = state_vector (sim env2)
                                in case notdone_of state of
                                     Inl e \<Rightarrow> (env2, Inl e)
                                   | Inr notdone \<Rightarrow>
                                       (let done = \<not> notdone;
                                            infos =
                                              [''reward_forward'' \<mapsto> IFloat forward_reward,
                                               ''reward_ctrl'' \<mapsto> IFloat (fneg ctrl_cost),
                                               ''reward_contact'' \<mapsto> IFloat (fneg contact_cost),
                                               ''reward_survive'' \<mapsto> IFloat survive_reward,
                                               ''task'' \<mapsto> ITask (dir_task env2)]
                                        in (env2, Inr (observation, reward, done, infos))))))))"

text \<open>
  \<open>np_random.binomial(n, p, size)\<close> is the parameter \<open>binomial_np\<close>, like \<open>uniform\<close>: it maps the number
  of trials, the probability, the number of draws and the generator's state to the draws
  and the next state.
\<close>

type_synonym 'g binomial_draw = "nat \<Rightarrow> real \<Rightarrow> nat \<Rightarrow> 'g \<Rightarrow> int list \<times> 'g"

definition AntDirEnv_sample_tasks ::
  "'g binomial_draw \<Rightarrow> 'g ant_dir_env \<Rightarrow> nat \<Rightarrow> 'g ant_dir_env \<times> dir_task list" where
  "AntDirEnv_sample_tasks binomial_np env num_tasks =
     (case binomial_np 1 0.5 num_tasks (np_random env) of
        (draws, g) \<Rightarrow>
          (let directions = map (\<lambda>b. 2 * b - 1) draws;
               tasks = map (\<lambda>direction. [''direction'' \<mapsto> direction]) directions
           in (env\<lparr>np_random := g\<rparr>, tasks)))"

definition AntDirEnv_reset_task ::
  "'g ant_dir_env \<Rightarrow> dir_task \<Rightarrow> 'g ant_dir_env \<times> (py_error + unit)" where
  "AntDirEnv_reset_task env task =
     (let env1 = env\<lparr>dir_task := task\<rparr>
      in case task ''direction'' of
           None \<Rightarrow> (env1, Inl KeyError)
         | Some d \<Rightarrow> (env1\<lparr>goal_dir := d\<rparr>, Inr ()))"

subsection \<open>AntPosEnv\<close>

type_synonym pos_task = "string \<rightharpoonup> fl list"

record 'g ant_pos_env = "'g ant_env" +
  pos_task :: pos_task
  goal_pos :: "fl list"

definition AntPosEnv_init :: "'g ant_env \<Rightarrow> pos_task \<Rightarrow> 'g ant_pos_env" where
  "AntPosEnv_init base task =
     \<lparr>sim = sim base,
      action_space_low = action_space_low base,
      action_space_high = action_space_high base,
      self_action_scaling = None,
      np_random = np_random base,
      pos_task = task,
      goal_pos = (case task ''position'' of None \<Rightarrow> replicate 2 (Fin 0) | Some q \<Rightarrow> q)\<rparr>"

definition AntPosEnv_step ::
  "dynamics \<Rightarrow> (fl \<Rightarrow> fl) \<Rightarrow> 'g ant_pos_env \<Rightarrow> fl list
     \<Rightarrow> 'g ant_pos_env \<times> (py_error + pos_task step_result)" where
  "AntPosEnv_step forward_dynamics f32 env action =
     (case forward_dynamics (sim env) action of
        (p, Some e) \<Rightarrow> (env\<lparr>sim := p\<rparr>, Inl e)
      | (p, None) \<Rightarrow>
          (let env1 = env\<lparr>sim := p\<rparr>;
               xyposafter = take 2 (body_com_torso (sim env1))
           in case broadcast2 fsub xyposafter (goal_pos env1) of
                Inl e \<Rightarrow> (env1, Inl e)
              | Inr diff \<Rightarrow>
                  (let goal_reward = fadd (fneg (np_sum (map fabs diff))) (Fin 4.0);
                       survive_reward = Fin 0.05
                   in case action_scaling env1 of
                        (env2, Inl e) \<Rightarrow> (env2, Inl e)
                      | (env2, Inr scaling) \<Rightarrow>
                          (case broadcast2 fdiv action scaling of
                             Inl e \<Rightarrow> (env2, Inl e)
                           | Inr scaled \<Rightarrow>
                               (let ctrl_cost =
                                      fmul (fmul (Fin 0.5) (Fin 0.01))
                                           (np_sum (map np_square scaled));
                                    contact_cost =
                                      fmul (fmul (Fin 0.5) (Fin 0.001))
                                           (np_sum (map np_square
                                              (map (\<lambda>c. np_clip c (Fin (- 1)) (Fin 1))
                                                   (concat (cfrc_ext (sim env2))))));
                                    observation = get_current_obs f32 env2;
                                    reward =
                                      fadd (fsub (fsub goal_reward ctrl_cost) contact_cost)
                                           survive_reward;
                                    state = state_vector (sim env2)
                                in case notdone_of state of
                                     Inl e \<Rightarrow> (env2, Inl e)
                                   | Inr notdone \<Rightarrow>
                                       (let done = \<not> notdone;
                                            infos =
                                              [''reward_goal'' \<mapsto> IFloat goal_reward,
                                               ''reward_ctrl'' \<mapsto> IFloat (fneg ctrl_cost),
                                               ''reward_contact'' \<mapsto> IFloat (fneg contact_cost),
                                               ''reward_survive'' \<mapsto> IFloat survive_reward,
                                               ''task'' \<mapsto> ITask (pos_task env2)]
                                        in (env2, Inr (observation, reward, done, infos))))))))"

text \<open>
  \<open>uniform(-3.0, 3.0, size=(num_tasks, 2))\<close> draws \<open>num_tasks * 2\<close> values and arranges
  them in \<open>num_tasks\<close> rows of 2; iterating over the matrix yields its rows.
\<close>

primrec reshape_rows :: "nat \<Rightarrow> nat \<Rightarrow> 'a list \<Rightarrow> 'a list list" where
  "reshape_rows 0 w xs = []"
| "reshape_rows (Suc n) w xs = take w xs # reshape_rows n w (drop w xs)"

definition AntPosEnv_sample_tasks ::
  "'g uniform_draw \<Rightarrow> 'g ant_pos_env \<Rightarrow> nat \<Rightarrow> 'g ant_pos_env \<times> pos_task list" where
  "AntPosEnv_sample_tasks uniform env num_tasks =
     (case uniform (Fin (- 3.0)) (Fin 3.0) (num_tasks * 2) (np_random env) of
        (flat, g) \<Rightarrow>
          (let positions = reshape_rows num_tasks 2 flat;
               tasks = map (\<lambda>position. [''position'' \<mapsto> position]) positions
           in (env\<lparr>np_random := g\<rparr>, tasks)))"

definition AntPosEnv_reset_task ::
  "'g ant_pos_env \<Rightarrow> pos_task \<Rightarrow> 'g ant_pos_env \<times> (py_error + unit)" where
  "AntPosEnv_reset_task env task =
     (let env1 = env\<lparr>pos_task := task\<rparr>
      in case task ''position'' of
           None \<Rightarrow> (env1, Inl KeyError)
         | Some q \<Rightarrow> (env1\<lparr>goal_pos := q\<rparr>, Inr ()))"

subsection \<open>Sequences of method calls\<close>

text \<open>
  A caller uses an instance through a sequence of calls. \<open>AntVelEnv_call\<close> (and its
  siblings) give the object after one call, whether the call returned or raised; a whole
  sequence is a \<open>foldl\<close> over the list of calls.
\<close>

datatype 't call =
  CallStep "fl list"
| CallSampleTasks nat
| CallResetTask 't
| CallGetCurrentObs
| CallActionScaling

definition AntVelEnv_call ::
  "dynamics \<Rightarrow> (fl \<Rightarrow> fl) \<Rightarrow> 'g uniform_draw \<Rightarrow> 'g ant_vel_env \<Rightarrow> vel_task call
     \<Rightarrow> 'g ant_vel_env" where
  "AntVelEnv_call forward_dynamics f32 uniform env c =
     (case c of
        CallStep action \<Rightarrow> fst (AntVelEnv_step forward_dynamics f32 env action)
      | CallSampleTasks n \<Rightarrow> fst (AntVelEnv_sample_tasks uniform env n)
      | CallResetTask task \<Rightarrow> fst (AntVelEnv_reset_task env task)
      | CallGetCurrentObs \<Rightarrow> env
      | CallActionScaling \<Rightarrow> fst (action_scaling env))"

definition AntDirEnv_call ::
  "dynamics \<Rightarrow> (fl \<Rightarrow> fl) \<Rightarrow> 'g binomial_draw \<Rightarrow> 'g ant_dir_env \<Rightarrow> dir_task call
     \<Rightarrow> 'g ant_dir_env" where
  "AntDirEnv_call forward_dynamics f32 binomial_np env c =
     (case c of
        CallStep action \<Rightarrow> fst (AntDirEnv_step forward_dynamics f32 env action)
      | CallSampleTasks n \<Rightarrow> fst (AntDirEnv_sample_tasks binomial_np env n)
      | CallResetTask task \<Rightarrow> fst (AntDirEnv_reset_task env task)
      | CallGetCurrentObs \<Rightarrow> env
      | CallActionScaling \<Rightarrow> fst (action_scaling env))"

definition AntPosEnv_call ::
  "dynamics \<Rightarrow> (fl \<Rightarrow> fl) \<Rightarrow> 'g uniform_draw \<Rightarrow> 'g ant_pos_env \<Rightarrow> pos_task call
     \<Rightarrow> 'g ant_pos_env" where
  "AntPosEnv_call forward_dynamics f32 uniform env c =
     (case c of
        CallStep action \<Rightarrow> fst (AntPosEnv_step forward_dynamics f32 env action)
      | CallSampleTasks n \<Rightarrow> fst (AntPosEnv_sample_tasks uniform env n)
      | CallResetTask task \<Rightarrow> fst (AntPosEnv_reset_task env task)
      | CallGetCurrentObs \<Rightarrow> env
      | CallActionScaling \<Rightarrow> fst (action_scaling env))"

subsection \<open>A concrete simulator, random source and instances\<close>

text \<open>
  Small concrete values on which the results below are evaluated: a simulator state before
  and after a step, a dynamics that moves from any state to the second one, a narrowing
  that keeps every value, a random source whose state counts the draws made, and one
  instance of each variant.
\<close>

definition ex_physics_before :: physics where
  "ex_physics_before =
     \<lparr>qpos = [Fin 0, Fin 0, Fin 0.1], qvel = [Fin 0],
      cfrc_ext = [[Fin 0, Fin 0]],
      body_xmat_torso = [[Fin 1, Fin 0], [Fin 0, Fin 1]],
      body_com_torso = [Fin 0, Fin 0, Fin 0.1],
      body_comvel_torso = [Fin 0, Fin 0, Fin 0],
      state_vector = [Fin 0, Fin 0, Fin 0.1, Fin 0]\<rparr>"

definition ex_physics_after :: physics where
  "ex_physics_after =
     \<lparr>qpos = [Fin 1, Fin 2, Fin 0.5], qvel = [Fin 2],
      cfrc_ext = [[Fin 2, Fin (- 0.5)]],
      body_xmat_torso = [[Fin 1, Fin 0], [Fin 0, Fin 1]],
      body_com_torso = [Fin 1, Fin 2, Fin 0.5],
      body_comvel_torso = [Fin 2, Fin 0, Fin 0],
      state_vector = [Fin 1, Fin 2, Fin 0.5, Fin 2]\<rparr>"

definition ex_dynamics :: dynamics where
  "ex_dynamics p action = (ex_physics_after, None)"

definition ex_f32 :: "fl \<Rightarrow> fl" where
  "ex_f32 x = x"

definition ex_uniform :: "nat uniform_draw" where
  "ex_uniform lo hi n g =
     (map (\<lambda>i. fadd lo (fmul (fsub hi lo) (Fin (if even i then 2 / 3 else 1 / 3)))) [g..<g + n],
      g + n)"

definition ex_binomial :: "nat binomial_draw" where
  "ex_binomial trials p n g = (map (\<lambda>i. int (i mod 2)) [g..<g + n], g + n)"

definition ex_base :: "nat ant_env" where
  "ex_base =
     \<lparr>sim = ex_physics_before,
      action_space_low = [Fin (- 1), Fin (- 1)],
      action_space_high = [Fin 1, Fin 1],
      self_action_scaling = Some [],
      np_random = 0\<rparr>"

definition ex_action :: "fl list" where
  "ex_action = [Fin 0.5, Fin (- 1)]"

definition ex_no_key :: "string \<rightharpoonup> 'a" where
  "ex_no_key = Map.empty"

definition ex_vel_task :: vel_task where
  "ex_vel_task = [''velocity'' \<mapsto> Fin 2]"

definition ex_dir_task :: dir_task where
  "ex_dir_task = [''direction'' \<mapsto> - 1]"

definition ex_pos_task :: pos_task where
  "ex_pos_task = [''position'' \<mapsto> [Fin 1, Fin (- 1)]]"

definition ex_vel_env :: "nat ant_vel_env" where
  "ex_vel_env = AntVelEnv_init ex_base ex_no_key"

definition ex_dir_env :: "nat ant_dir_env" where
  "ex_dir_env = AntDirEnv_init ex_base ex_no_key"

definition ex_pos_env :: "nat ant_pos_env" where
  "ex_pos_env = AntPosEnv_init ex_base ex_no_key"

text \<open>
  One run of each variant: the instance after \<open>reset_task\<close> with a task of its shape, the
  instance after one step from there, and what that step returns.
\<close>

definition ex_vel_env_reset :: "nat ant_vel_env" where
  "ex_vel_env_reset = fst (AntVelEnv_reset_task ex_vel_env ex_vel_task)"

definition ex_dir_env_reset :: "nat ant_dir_env" where
  "ex_dir_env_reset = fst (AntDirEnv_reset_task ex_dir_env ex_dir_task)"

definition ex_pos_env_reset :: "nat ant_pos_env" where
  "ex_pos_env_reset = fst (AntPosEnv_reset_task ex_pos_env ex_pos_task)"

definition ex_vel_env_after :: "nat ant_vel_env" where
  "ex_vel_env_after =
     ex_vel_env_reset\<lparr>sim := ex_physics_after, self_action_scaling := Some [Fin 1, Fin 1]\<rparr>"

definition ex_dir_env_after :: "nat ant_dir_env" where
  "ex_dir_env_after =
     ex_dir_env_reset\<lparr>sim := ex_physics_after, self_action_scaling := Some [Fin 1, Fin 1]\<rparr>"

definition ex_pos_env_after :: "nat ant_pos_env" where
  "ex_pos_env_after =
     ex_pos_env_reset\<lparr>sim := ex_physics_after, self_action_scaling := Some [Fin 1, Fin 1]\<rparr>"

definition ex_obs :: "fl list" where
  "ex_obs =
     [Fin 1, Fin 2, Fin 0.5, Fin 2, Fin 1, Fin (- 0.5), Fin 1, Fin 0, Fin 0, Fin 1,
      Fin 1, Fin 2, Fin 0.5]"

definition ex_vel_infos :: "string \<rightharpoonup> vel_task info_val" where
  "ex_vel_infos =
     [''reward_forward'' \<mapsto> IFloat (Fin 1),
      ''reward_ctrl'' \<mapsto> IFloat (Fin (- (1 / 160))),
      ''reward_contact'' \<mapsto> IFloat (Fin (- (1 / 1600))),
      ''reward_survive'' \<mapsto> IFloat (Fin (1 / 20)),
      ''task'' \<mapsto> ITask ex_vel_task]"

definition ex_dir_infos :: "string \<rightharpoonup> dir_task info_val" where
  "ex_dir_infos =
     [''reward_forward'' \<mapsto> IFloat (Fin (- 2)),
      ''reward_ctrl'' \<mapsto> IFloat (Fin (- (1 / 160))),
      ''reward_contact'' \<mapsto> IFloat (Fin (- (1 / 1600))),
      ''reward_survive'' \<mapsto> IFloat (Fin (1 / 20)),
      ''task'' \<mapsto> ITask ex_dir_task]"

definition ex_pos_infos :: "string \<rightharpoonup> pos_task info_val" where
  "ex_pos_infos =
     [''reward_goal'' \<mapsto> IFloat (Fin 1),
      ''reward_ctrl'' \<mapsto> IFloat (Fin (- (1 / 160))),
      ''reward_contact'' \<mapsto> IFloat (Fin (- (1 / 1600))),
      ''reward_survive'' \<mapsto> IFloat (Fin (1 / 20)),
      ''task'' \<mapsto> ITask ex_pos_task]"

text \<open>
  A second run of the Velocity variant, towards a goal velocity above the velocity the
  torso reaches.
\<close>

definition ex_vel_task_fast :: vel_task where
  "ex_vel_task_fast = [''velocity'' \<mapsto> Fin 3]"

definition ex_vel_env_fast :: "nat ant_vel_env" where
  "ex_vel_env_fast = fst (AntVelEnv_reset_task ex_vel_env ex_vel_task_fast)"

definition ex_vel_env_fast_after :: "nat ant_vel_env" where
  "ex_vel_env_fast_after =
     ex_vel_env_fast\<lparr>sim := ex_physics_after, self_action_scaling := Some [Fin 1, Fin 1]\<rparr>"

definition ex_vel_infos_fast :: "string \<rightharpoonup> vel_task info_val" where
  "ex_vel_infos_fast =
     [''reward_forward'' \<mapsto> IFloat (Fin 0),
      ''reward_ctrl'' \<mapsto> IFloat (Fin (- (1 / 160))),
      ''reward_contact'' \<mapsto> IFloat (Fin (- (1 / 1600))),
      ''reward_survive'' \<mapsto> IFloat (Fin (1 / 20)),
      ''task'' \<mapsto> ITask ex_vel_task_fast]"

subsection \<open>The action scaling in the words of the specification\<close>

text \<open>
  \<open>0.5*(ub-lb)\<close> element by element, for bounds of one length, to be compared with what
  the property \<open>action_scaling\<close> returns.
\<close>

definition scaling_of_bounds :: "fl list \<Rightarrow> fl list \<Rightarrow> fl list" where
  "scaling_of_bounds lb ub = map2 (\<lambda>u l. fmul (Fin 0.5) (fsub u l)) ub lb"

text \<open>
  The state of the cache on an instance with the bounds \<open>lb\<close> and \<open>ub\<close>: not yet
  computed, or holding their scaling.
\<close>

definition cache_ok :: "fl list \<Rightarrow> fl list \<Rightarrow> ('g, 'z) ant_env_scheme \<Rightarrow> bool" where
  "cache_ok lb ub env =
     (action_space_low env = lb \<and> action_space_high env = ub
      \<and> (self_action_scaling env = None
           \<or> self_action_scaling env = Some (scaling_of_bounds lb ub)))"

subsection \<open>The termination rule in the words of the specification\<close>


section \<open>Properties\<close>

subsection \<open>The cached action scaling\<close>

lemma action_scaling_frame:
  assumes "action_scaling env = (env', res)"
  shows "env' = env\<lparr>self_action_scaling := self_action_scaling env'\<rparr>"
  using assms
  by (cases "self_action_scaling env";
      cases "broadcast2 fsub (action_space_high env) (action_space_low env)")
     (auto simp: action_scaling_def Let_def)

lemma action_scaling_sim:
  assumes "action_scaling env = (env', res)"
  shows "sim env' = sim env"
proof -
  have "env' = env\<lparr>self_action_scaling := self_action_scaling env'\<rparr>"
    using assms by (rule action_scaling_frame)
  then have "sim env' = sim (env\<lparr>self_action_scaling := self_action_scaling env'\<rparr>)"
    by simp
  then show ?thesis by simp
qed

lemma action_scaling_cached:
  "self_action_scaling env = Some v \<Longrightarrow> action_scaling env = (env, Inr v)"
  by (simp add: action_scaling_def)

lemma action_scaling_keeps_cache:
  assumes "self_action_scaling env = Some v"
  shows "self_action_scaling (fst (action_scaling env)) = Some v"
  using assms by (simp add: action_scaling_cached)

lemma action_scaling_first:
  assumes "self_action_scaling env = None"
    and "length (action_space_low env) = length (action_space_high env)"
  shows "action_scaling env =
    (env\<lparr>self_action_scaling :=
        Some (map2 (\<lambda>ub lb. fmul (Fin 0.5) (fsub ub lb))
                (action_space_high env) (action_space_low env))\<rparr>,
     Inr (map2 (\<lambda>ub lb. fmul (Fin 0.5) (fsub ub lb))
            (action_space_high env) (action_space_low env)))"
proof -
  have "map (fmul (Fin 0.5)) (map2 fsub (action_space_high env) (action_space_low env))
      = map2 (\<lambda>ub lb. fmul (Fin 0.5) (fsub ub lb)) (action_space_high env) (action_space_low env)"
    by (simp add: map_zip_map2 split_def)
  then show ?thesis
    using assms by (simp add: action_scaling_def broadcast2_def Let_def)
qed

subsection \<open>The termination test\<close>


lemma notdone_of_returns:
  "2 < length s \<or> \<not> list_all isfinite s \<Longrightarrow> \<exists>nd. notdone_of s = Inr nd"
  by (auto simp: notdone_of_def index_at_def)



subsection \<open>What a returning step of AntVelEnv computed\<close>

lemma action_scaling_vel_fields:
  assumes "action_scaling env = (env', res)"
  shows "vel_task env' = vel_task env \<and> goal_vel env' = goal_vel env"
proof -
  have "env' = env\<lparr>self_action_scaling := self_action_scaling env'\<rparr>"
    using assms by (rule action_scaling_frame)
  then have "vel_task env' = vel_task (env\<lparr>self_action_scaling := self_action_scaling env'\<rparr>)
     \<and> goal_vel env' = goal_vel (env\<lparr>self_action_scaling := self_action_scaling env'\<rparr>)"
    by simp
  then show ?thesis by simp
qed

lemma vel_step_Inr:
  assumes "AntVelEnv_step fd f32 env a = (env', Inr (obs, reward, done, infos))"
  shows "\<exists>fv scaling scaled ctrl_cost contact_cost.
    fd (sim env) a = (sim env', None) \<and>
    index_at (body_comvel_torso (sim env')) 0 = Inr fv \<and>
    action_scaling (env\<lparr>sim := sim env'\<rparr>) = (env', Inr scaling) \<and>
    broadcast2 fdiv a scaling = Inr scaled \<and>
    ctrl_cost = fmul (fmul (Fin 0.5) (Fin 0.01)) (np_sum (map np_square scaled)) \<and>
    contact_cost = fmul (fmul (Fin 0.5) (Fin 0.001))
       (np_sum (map np_square
          (map (\<lambda>c. np_clip c (Fin (- 1)) (Fin 1)) (concat (cfrc_ext (sim env')))))) \<and>
    notdone_of (state_vector (sim env')) = Inr (\<not> done) \<and>
    obs = get_current_obs f32 env' \<and>
    reward = fadd (fsub (fsub (fadd (fmul (Fin (- 1.0)) (fabs (fsub fv (goal_vel env)))) (Fin 1.0)) ctrl_cost) contact_cost) (Fin 0.05) \<and>
    infos = [''reward_forward'' \<mapsto> IFloat (fadd (fmul (Fin (- 1.0)) (fabs (fsub fv (goal_vel env)))) (Fin 1.0)),
             ''reward_ctrl'' \<mapsto> IFloat (fneg ctrl_cost),
             ''reward_contact'' \<mapsto> IFloat (fneg contact_cost),
             ''reward_survive'' \<mapsto> IFloat (Fin 0.05),
             ''task'' \<mapsto> ITask (vel_task env)]"
proof -
  obtain p eo where fd: "fd (sim env) a = (p, eo)"
    by (cases "fd (sim env) a")
  show ?thesis
  proof (cases eo)
    case (Some e)
    with fd assms show ?thesis by (simp add: AntVelEnv_step_def)
  next
    case None
    obtain e2 r2 where s: "action_scaling (env\<lparr>sim := p\<rparr>) = (e2, r2)"
      by (cases "action_scaling (env\<lparr>sim := p\<rparr>)")
    have s2: "sim e2 = p" using action_scaling_sim[OF s] by simp
    have s3: "vel_task e2 = vel_task env" using action_scaling_vel_fields[OF s] by simp
    show ?thesis using assms fd None s s2 s3
      by (auto simp: AntVelEnv_step_def Let_def split: sum.splits)
  qed
qed

lemma vel_step_eval:
  assumes "fd (sim env) a = (p, None)"
    and "index_at (body_comvel_torso p) 0 = Inr fv"
    and "action_scaling (env\<lparr>sim := p\<rparr>) = (env', Inr scaling)"
    and "broadcast2 fdiv a scaling = Inr scaled"
    and "notdone_of (state_vector p) = Inr nd"
  shows "AntVelEnv_step fd f32 env a =
    (env', Inr (get_current_obs f32 env',
       fadd (fsub (fsub (fadd (fmul (Fin (- 1.0)) (fabs (fsub fv (goal_vel env)))) (Fin 1.0))
          (fmul (fmul (Fin 0.5) (Fin 0.01)) (np_sum (map np_square scaled))))
          (fmul (fmul (Fin 0.5) (Fin 0.001))
            (np_sum (map np_square
               (map (\<lambda>c. np_clip c (Fin (- 1)) (Fin 1)) (concat (cfrc_ext p)))))))
          (Fin 0.05),
       \<not> nd,
       [''reward_forward'' \<mapsto> IFloat (fadd (fmul (Fin (- 1.0)) (fabs (fsub fv (goal_vel env)))) (Fin 1.0)),
        ''reward_ctrl'' \<mapsto>
          IFloat (fneg (fmul (fmul (Fin 0.5) (Fin 0.01)) (np_sum (map np_square scaled)))),
        ''reward_contact'' \<mapsto>
          IFloat (fneg (fmul (fmul (Fin 0.5) (Fin 0.001))
            (np_sum (map np_square
               (map (\<lambda>c. np_clip c (Fin (- 1)) (Fin 1)) (concat (cfrc_ext p))))))),
        ''reward_survive'' \<mapsto> IFloat (Fin 0.05),
        ''task'' \<mapsto> ITask (vel_task env)]))"
proof -
  have s2: "sim env' = p" using action_scaling_sim[OF assms(3)] by simp
  have s3: "vel_task env' = vel_task env"
    using action_scaling_vel_fields[OF assms(3)] by simp
  show ?thesis using assms s2 s3
    by (simp add: AntVelEnv_step_def Let_def)
qed

subsection \<open>What a returning step of AntDirEnv computed\<close>

lemma action_scaling_dir_fields:
  assumes "action_scaling env = (env', res)"
  shows "dir_task env' = dir_task env \<and> goal_dir env' = goal_dir env"
proof -
  have "env' = env\<lparr>self_action_scaling := self_action_scaling env'\<rparr>"
    using assms by (rule action_scaling_frame)
  then have "dir_task env' = dir_task (env\<lparr>self_action_scaling := self_action_scaling env'\<rparr>)
     \<and> goal_dir env' = goal_dir (env\<lparr>self_action_scaling := self_action_scaling env'\<rparr>)"
    by simp
  then show ?thesis by simp
qed

lemma dir_step_Inr:
  assumes "AntDirEnv_step fd f32 env a = (env', Inr (obs, reward, done, infos))"
  shows "\<exists>fv scaling scaled ctrl_cost contact_cost.
    fd (sim env) a = (sim env', None) \<and>
    index_at (body_comvel_torso (sim env')) 0 = Inr fv \<and>
    action_scaling (env\<lparr>sim := sim env'\<rparr>) = (env', Inr scaling) \<and>
    broadcast2 fdiv a scaling = Inr scaled \<and>
    ctrl_cost = fmul (fmul (Fin 0.5) (Fin 0.01)) (np_sum (map np_square scaled)) \<and>
    contact_cost = fmul (fmul (Fin 0.5) (Fin 0.001))
       (np_sum (map np_square
          (map (\<lambda>c. np_clip c (Fin (- 1)) (Fin 1)) (concat (cfrc_ext (sim env')))))) \<and>
    notdone_of (state_vector (sim env')) = Inr (\<not> done) \<and>
    obs = get_current_obs f32 env' \<and>
    reward = fadd (fsub (fsub (fmul (Fin (real_of_int (goal_dir env))) fv) ctrl_cost) contact_cost) (Fin 0.05) \<and>
    infos = [''reward_forward'' \<mapsto> IFloat (fmul (Fin (real_of_int (goal_dir env))) fv),
             ''reward_ctrl'' \<mapsto> IFloat (fneg ctrl_cost),
             ''reward_contact'' \<mapsto> IFloat (fneg contact_cost),
             ''reward_survive'' \<mapsto> IFloat (Fin 0.05),
             ''task'' \<mapsto> ITask (dir_task env)]"
proof -
  obtain p eo where fd: "fd (sim env) a = (p, eo)"
    by (cases "fd (sim env) a")
  show ?thesis
  proof (cases eo)
    case (Some e)
    with fd assms show ?thesis by (simp add: AntDirEnv_step_def)
  next
    case None
    obtain e2 r2 where s: "action_scaling (env\<lparr>sim := p\<rparr>) = (e2, r2)"
      by (cases "action_scaling (env\<lparr>sim := p\<rparr>)")
    have s2: "sim e2 = p" using action_scaling_sim[OF s] by simp
    have s3: "dir_task e2 = dir_task env" using action_scaling_dir_fields[OF s] by simp
    show ?thesis using assms fd None s s2 s3
      by (auto simp: AntDirEnv_step_def Let_def split: sum.splits)
  qed
qed

lemma dir_step_eval:
  assumes "fd (sim env) a = (p, None)"
    and "index_at (body_comvel_torso p) 0 = Inr fv"
    and "action_scaling (env\<lparr>sim := p\<rparr>) = (env', Inr scaling)"
    and "broadcast2 fdiv a scaling = Inr scaled"
    and "notdone_of (state_vector p) = Inr nd"
  shows "AntDirEnv_step fd f32 env a =
    (env', Inr (get_current_obs f32 env',
       fadd (fsub (fsub (fmul (Fin (real_of_int (goal_dir env))) fv)
          (fmul (fmul (Fin 0.5) (Fin 0.01)) (np_sum (map np_square scaled))))
          (fmul (fmul (Fin 0.5) (Fin 0.001))
            (np_sum (map np_square
               (map (\<lambda>c. np_clip c (Fin (- 1)) (Fin 1)) (concat (cfrc_ext p)))))))
          (Fin 0.05),
       \<not> nd,
       [''reward_forward'' \<mapsto> IFloat (fmul (Fin (real_of_int (goal_dir env))) fv),
        ''reward_ctrl'' \<mapsto>
          IFloat (fneg (fmul (fmul (Fin 0.5) (Fin 0.01)) (np_sum (map np_square scaled)))),
        ''reward_contact'' \<mapsto>
          IFloat (fneg (fmul (fmul (Fin 0.5) (Fin 0.001))
            (np_sum (map np_square
               (map (\<lambda>c. np_clip c (Fin (- 1)) (Fin 1)) (concat (cfrc_ext p))))))),
        ''reward_survive'' \<mapsto> IFloat (Fin 0.05),
        ''task'' \<mapsto> ITask (dir_task env)]))"
proof -
  have s2: "sim env' = p" using action_scaling_sim[OF assms(3)] by simp
  have s3: "dir_task env' = dir_task env"
    using action_scaling_dir_fields[OF assms(3)] by simp
  show ?thesis using assms s2 s3
    by (simp add: AntDirEnv_step_def Let_def)
qed

subsection \<open>What a returning step of AntPosEnv computed\<close>

lemma action_scaling_pos_fields:
  assumes "action_scaling env = (env', res)"
  shows "pos_task env' = pos_task env \<and> goal_pos env' = goal_pos env"
proof -
  have "env' = env\<lparr>self_action_scaling := self_action_scaling env'\<rparr>"
    using assms by (rule action_scaling_frame)
  then have "pos_task env' = pos_task (env\<lparr>self_action_scaling := self_action_scaling env'\<rparr>)
     \<and> goal_pos env' = goal_pos (env\<lparr>self_action_scaling := self_action_scaling env'\<rparr>)"
    by simp
  then show ?thesis by simp
qed

lemma pos_step_Inr:
  assumes "AntPosEnv_step fd f32 env a = (env', Inr (obs, reward, done, infos))"
  shows "\<exists>diff scaling scaled ctrl_cost contact_cost.
    fd (sim env) a = (sim env', None) \<and>
    broadcast2 fsub (take 2 (body_com_torso (sim env'))) (goal_pos env) = Inr diff \<and>
    action_scaling (env\<lparr>sim := sim env'\<rparr>) = (env', Inr scaling) \<and>
    broadcast2 fdiv a scaling = Inr scaled \<and>
    ctrl_cost = fmul (fmul (Fin 0.5) (Fin 0.01)) (np_sum (map np_square scaled)) \<and>
    contact_cost = fmul (fmul (Fin 0.5) (Fin 0.001))
       (np_sum (map np_square
          (map (\<lambda>c. np_clip c (Fin (- 1)) (Fin 1)) (concat (cfrc_ext (sim env')))))) \<and>
    notdone_of (state_vector (sim env')) = Inr (\<not> done) \<and>
    obs = get_current_obs f32 env' \<and>
    reward = fadd (fsub (fsub (fadd (fneg (np_sum (map fabs diff))) (Fin 4.0)) ctrl_cost) contact_cost) (Fin 0.05) \<and>
    infos = [''reward_goal'' \<mapsto> IFloat (fadd (fneg (np_sum (map fabs diff))) (Fin 4.0)),
             ''reward_ctrl'' \<mapsto> IFloat (fneg ctrl_cost),
             ''reward_contact'' \<mapsto> IFloat (fneg contact_cost),
             ''reward_survive'' \<mapsto> IFloat (Fin 0.05),
             ''task'' \<mapsto> ITask (pos_task env)]"
proof -
  obtain p eo where fd: "fd (sim env) a = (p, eo)"
    by (cases "fd (sim env) a")
  show ?thesis
  proof (cases eo)
    case (Some e)
    with fd assms show ?thesis by (simp add: AntPosEnv_step_def)
  next
    case None
    obtain e2 r2 where s: "action_scaling (env\<lparr>sim := p\<rparr>) = (e2, r2)"
      by (cases "action_scaling (env\<lparr>sim := p\<rparr>)")
    have s2: "sim e2 = p" using action_scaling_sim[OF s] by simp
    have s3: "pos_task e2 = pos_task env" using action_scaling_pos_fields[OF s] by simp
    show ?thesis using assms fd None s s2 s3
      by (auto simp: AntPosEnv_step_def Let_def split: sum.splits)
  qed
qed

lemma pos_step_eval:
  assumes "fd (sim env) a = (p, None)"
    and "broadcast2 fsub (take 2 (body_com_torso p)) (goal_pos env) = Inr diff"
    and "action_scaling (env\<lparr>sim := p\<rparr>) = (env', Inr scaling)"
    and "broadcast2 fdiv a scaling = Inr scaled"
    and "notdone_of (state_vector p) = Inr nd"
  shows "AntPosEnv_step fd f32 env a =
    (env', Inr (get_current_obs f32 env',
       fadd (fsub (fsub (fadd (fneg (np_sum (map fabs diff))) (Fin 4.0))
          (fmul (fmul (Fin 0.5) (Fin 0.01)) (np_sum (map np_square scaled))))
          (fmul (fmul (Fin 0.5) (Fin 0.001))
            (np_sum (map np_square
               (map (\<lambda>c. np_clip c (Fin (- 1)) (Fin 1)) (concat (cfrc_ext p)))))))
          (Fin 0.05),
       \<not> nd,
       [''reward_goal'' \<mapsto> IFloat (fadd (fneg (np_sum (map fabs diff))) (Fin 4.0)),
        ''reward_ctrl'' \<mapsto>
          IFloat (fneg (fmul (fmul (Fin 0.5) (Fin 0.01)) (np_sum (map np_square scaled)))),
        ''reward_contact'' \<mapsto>
          IFloat (fneg (fmul (fmul (Fin 0.5) (Fin 0.001))
            (np_sum (map np_square
               (map (\<lambda>c. np_clip c (Fin (- 1)) (Fin 1)) (concat (cfrc_ext p))))))),
        ''reward_survive'' \<mapsto> IFloat (Fin 0.05),
        ''task'' \<mapsto> ITask (pos_task env)]))"
proof -
  have s2: "sim env' = p" using action_scaling_sim[OF assms(3)] by simp
  have s3: "pos_task env' = pos_task env"
    using action_scaling_pos_fields[OF assms(3)] by simp
  show ?thesis using assms s2 s3
    by (simp add: AntPosEnv_step_def Let_def)
qed

subsection \<open>The concrete runs\<close>

lemmas ex_defs =
  ex_dynamics_def ex_f32_def ex_base_def ex_action_def ex_physics_after_def
  ex_physics_before_def ex_no_key_def ex_obs_def

lemmas np_defs =
  index_at_def action_scaling_def broadcast2_def notdone_of_def fge_def np_sum_def
  np_square_def np_clip_def np_maximum_def np_minimum_def get_current_obs_def signed_inf_def

lemma ex_vel_reset:
  "AntVelEnv_reset_task ex_vel_env ex_vel_task =
     (ex_vel_env\<lparr>vel_task := ex_vel_task, goal_vel := Fin 2\<rparr>, Inr ())"
  by (simp add: AntVelEnv_reset_task_def ex_vel_task_def)

lemma ex_dir_reset:
  "AntDirEnv_reset_task ex_dir_env ex_dir_task =
     (ex_dir_env\<lparr>dir_task := ex_dir_task, goal_dir := - 1\<rparr>, Inr ())"
  by (simp add: AntDirEnv_reset_task_def ex_dir_task_def)

lemma ex_pos_reset:
  "AntPosEnv_reset_task ex_pos_env ex_pos_task =
     (ex_pos_env\<lparr>pos_task := ex_pos_task, goal_pos := [Fin 1, Fin (- 1)]\<rparr>, Inr ())"
  by (simp add: AntPosEnv_reset_task_def ex_pos_task_def)

lemma ex_vel_env_reset_eq:
  "ex_vel_env_reset = ex_vel_env\<lparr>vel_task := ex_vel_task, goal_vel := Fin 2\<rparr>"
  by (simp add: ex_vel_env_reset_def ex_vel_reset)

lemma ex_vel_run:
  "AntVelEnv_step ex_dynamics ex_f32 ex_vel_env_reset ex_action =
     (ex_vel_env_after, Inr (ex_obs, Fin (1669 / 1600), False, ex_vel_infos))"
  by (simp add: AntVelEnv_step_def ex_vel_env_after_def ex_vel_env_reset_eq
      ex_vel_env_def AntVelEnv_init_def ex_vel_infos_def ex_defs np_defs Let_def)

lemma ex_dir_env_reset_eq:
  "ex_dir_env_reset = ex_dir_env\<lparr>dir_task := ex_dir_task, goal_dir := - 1\<rparr>"
  by (simp add: ex_dir_env_reset_def ex_dir_reset)

lemma ex_dir_run:
  "AntDirEnv_step ex_dynamics ex_f32 ex_dir_env_reset ex_action =
     (ex_dir_env_after, Inr (ex_obs, Fin (- (3131 / 1600)), False, ex_dir_infos))"
  by (simp add: AntDirEnv_step_def ex_dir_env_after_def ex_dir_env_reset_eq
      ex_dir_env_def AntDirEnv_init_def ex_dir_infos_def ex_defs np_defs Let_def)

lemma ex_pos_env_reset_eq:
  "ex_pos_env_reset = ex_pos_env\<lparr>pos_task := ex_pos_task, goal_pos := [Fin 1, Fin (- 1)]\<rparr>"
  by (simp add: ex_pos_env_reset_def ex_pos_reset)

lemma ex_pos_run:
  "AntPosEnv_step ex_dynamics ex_f32 ex_pos_env_reset ex_action =
     (ex_pos_env_after, Inr (ex_obs, Fin (1669 / 1600), False, ex_pos_infos))"
  by (simp add: AntPosEnv_step_def ex_pos_env_after_def ex_pos_env_reset_eq
      ex_pos_env_def AntPosEnv_init_def ex_pos_infos_def ex_defs np_defs Let_def)

lemma ex_vel_env_fast_eq:
  "ex_vel_env_fast = ex_vel_env\<lparr>vel_task := ex_vel_task_fast, goal_vel := Fin 3\<rparr>"
  by (simp add: ex_vel_env_fast_def AntVelEnv_reset_task_def ex_vel_task_fast_def)

lemma ex_vel_fast_run:
  "AntVelEnv_step ex_dynamics ex_f32 ex_vel_env_fast ex_action =
     (ex_vel_env_fast_after, Inr (ex_obs, Fin (69 / 1600), False, ex_vel_infos_fast))"
  by (simp add: AntVelEnv_step_def ex_vel_env_fast_after_def ex_vel_env_fast_eq
      ex_vel_env_def AntVelEnv_init_def ex_vel_infos_fast_def ex_defs np_defs Let_def)

subsection \<open>Termination\<close>




subsection \<open>Rewards\<close>

lemma fmul_minus_one: "fmul (Fin (- 1)) y = fneg y"
  by (cases y) (simp_all add: signed_inf_def)

lemma fsub_as_fadd: "fsub x y = fadd x (fneg y)"
  by (cases x; cases y) simp_all

lemma index_at_0: "index_at xs 0 = Inr x \<Longrightarrow> \<exists>rest. xs = x # rest"
  by (cases xs) (simp_all add: index_at_def)

lemma deviation_zero:
  assumes "feq v g" and "isfinite g"
  shows "fadd (fneg (fabs (fsub v g))) (Fin 1.0) = Fin 1.0"
  using assms by (cases g; cases v) (simp_all add: feq_def)

lemma deviation_finite:
  "fadd (fneg (fabs (fsub (Fin x) (Fin g)))) (Fin 1.0) = Fin (1.0 - \<bar>x - g\<bar>)"
  by simp

lemma deviation_nan:
  assumes "isnan v \<or> isnan g"
  shows "fadd (fneg (fabs (fsub v g))) (Fin 1.0) = NaN"
  using assms by (cases g; cases v) simp_all

lemma deviation_unbounded:
  assumes "\<not> isnan v" and "\<not> isnan g" and "\<not> (isfinite v \<and> isfinite g)" and "v \<noteq> g"
  shows "fadd (fneg (fabs (fsub v g))) (Fin 1.0) = NInf"
  using assms by (cases g; cases v) simp_all

lemma deviation_equal_infinities:
  assumes "\<not> isnan v" and "\<not> isfinite v"
  shows "fadd (fneg (fabs (fsub v v))) (Fin 1.0) = NaN"
  using assms by (cases v) simp_all

text \<open>
  C2. A returning step of the Velocity variant reports, under \<open>reward_forward\<close>,
  \<open>-|forward_vel - goal_vel| + 1.0\<close>, where \<open>forward_vel\<close> is the first component of the
  torso's centre-of-mass velocity in the simulator after the physics step. For finite
  values \<open>x\<close> and \<open>g\<close> this is the number \<open>1 - |x - g|\<close>, with the absolute value of
  the reals; it is NaN when either value is NaN, and minus infinity when the two differ and
  one of them is infinite. A goal velocity is a finite number (the task records have
  \<open>velocity\<close> in \<open>[0.0, 3.0]\<close> and the default is \<open>0.0\<close>); when
  \<open>forward_vel == goal_vel\<close> for such a goal, \<open>reward_forward\<close> is exactly \<open>1.0\<close>. Two
  equal infinities give NaN.
\<close>

theorem vel_step_forward_reward:
  assumes "AntVelEnv_step fd f32 env a = (env', Inr (obs, reward, done, infos))"
  shows "\<exists>forward_vel rest.
    fd (sim env) a = (sim env', None)
    \<and> body_comvel_torso (sim env') = forward_vel # rest
    \<and> infos ''reward_forward''
        = Some (IFloat (fadd (fneg (fabs (fsub forward_vel (goal_vel env)))) (Fin 1.0)))
    \<and> (feq forward_vel (goal_vel env) \<and> isfinite (goal_vel env)
          \<longrightarrow> infos ''reward_forward'' = Some (IFloat (Fin 1.0)))
    \<and> (\<forall>x g. forward_vel = Fin x \<and> goal_vel env = Fin g
          \<longrightarrow> infos ''reward_forward'' = Some (IFloat (Fin (1.0 - \<bar>x - g\<bar>))))
    \<and> (isnan forward_vel \<or> isnan (goal_vel env)
          \<longrightarrow> infos ''reward_forward'' = Some (IFloat NaN))
    \<and> (\<not> isnan forward_vel \<and> \<not> isnan (goal_vel env)
          \<and> \<not> (isfinite forward_vel \<and> isfinite (goal_vel env))
          \<and> forward_vel \<noteq> goal_vel env
          \<longrightarrow> infos ''reward_forward'' = Some (IFloat NInf))
    \<and> (\<not> isnan forward_vel \<and> \<not> isfinite forward_vel \<and> forward_vel = goal_vel env
          \<longrightarrow> infos ''reward_forward'' = Some (IFloat NaN))"
proof -
  from vel_step_Inr[OF assms] obtain fv where
    fd: "fd (sim env) a = (sim env', None)"
    and ix: "index_at (body_comvel_torso (sim env')) 0 = Inr fv"
    and fr: "infos ''reward_forward''
       = Some (IFloat (fadd (fmul (Fin (- 1.0)) (fabs (fsub fv (goal_vel env)))) (Fin 1.0)))"
    by auto
  from index_at_0[OF ix] obtain rest where hd: "body_comvel_torso (sim env') = fv # rest"
    by blast
  have fr': "infos ''reward_forward''
       = Some (IFloat (fadd (fneg (fabs (fsub fv (goal_vel env)))) (Fin 1.0)))"
    using fr by (simp add: fmul_minus_one)
  have one: "infos ''reward_forward'' = Some (IFloat (Fin 1.0))"
    if "feq fv (goal_vel env) \<and> isfinite (goal_vel env)"
    using that fr' deviation_zero[of fv "goal_vel env"] by simp
  have fin: "\<forall>x g. fv = Fin x \<and> goal_vel env = Fin g
          \<longrightarrow> infos ''reward_forward'' = Some (IFloat (Fin (1.0 - \<bar>x - g\<bar>)))"
  proof (intro allI impI)
    fix x g
    assume "fv = Fin x \<and> goal_vel env = Fin g"
    then have "fadd (fneg (fabs (fsub fv (goal_vel env)))) (Fin 1.0) = Fin (1.0 - \<bar>x - g\<bar>)"
      using deviation_finite[of x g] by simp
    then show "infos ''reward_forward'' = Some (IFloat (Fin (1.0 - \<bar>x - g\<bar>)))"
      using fr' by simp
  qed
  have nan: "infos ''reward_forward'' = Some (IFloat NaN)"
    if "isnan fv \<or> isnan (goal_vel env)"
    using deviation_nan[OF that] fr' by simp
  have unb: "infos ''reward_forward'' = Some (IFloat NInf)"
    if "\<not> isnan fv \<and> \<not> isnan (goal_vel env)
          \<and> \<not> (isfinite fv \<and> isfinite (goal_vel env)) \<and> fv \<noteq> goal_vel env"
    using deviation_unbounded[of fv "goal_vel env"] that fr' by simp
  have inf: "infos ''reward_forward'' = Some (IFloat NaN)"
    if "\<not> isnan fv \<and> \<not> isfinite fv \<and> fv = goal_vel env"
    using deviation_equal_infinities[of "goal_vel env"] that fr' by auto
  from fd hd fr' one fin nan unb inf show ?thesis by blast
qed

theorem vel_step_forward_reward_witness:
  "AntVelEnv_step ex_dynamics ex_f32 ex_vel_env_reset ex_action
     = (ex_vel_env_after, Inr (ex_obs, Fin (1669 / 1600), False, ex_vel_infos))
   \<and> body_comvel_torso (sim ex_vel_env_after) = [Fin 2, Fin 0, Fin 0]
   \<and> goal_vel ex_vel_env_reset = Fin 2
   \<and> ex_vel_infos ''reward_forward'' = Some (IFloat (Fin 1.0))
   \<and> AntVelEnv_step ex_dynamics ex_f32 ex_vel_env_fast ex_action
     = (ex_vel_env_fast_after, Inr (ex_obs, Fin (69 / 1600), False, ex_vel_infos_fast))
   \<and> body_comvel_torso (sim ex_vel_env_fast_after) = [Fin 2, Fin 0, Fin 0]
   \<and> goal_vel ex_vel_env_fast = Fin 3
   \<and> ex_vel_infos_fast ''reward_forward'' = Some (IFloat (Fin (1.0 - \<bar>2 - 3\<bar>)))
   \<and> ex_vel_infos_fast ''reward_forward'' = Some (IFloat (Fin 0))"
proof -
  have g: "goal_vel ex_vel_env_reset = Fin 2"
    by (simp add: ex_vel_env_reset_eq)
  have c: "body_comvel_torso (sim ex_vel_env_after) = [Fin 2, Fin 0, Fin 0]"
    by (simp add: ex_vel_env_after_def ex_physics_after_def)
  from vel_step_forward_reward[OF ex_vel_run] obtain forward_vel rest where
    hd: "body_comvel_torso (sim ex_vel_env_after) = forward_vel # rest"
    and one: "feq forward_vel (goal_vel ex_vel_env_reset) \<and> isfinite (goal_vel ex_vel_env_reset)
          \<longrightarrow> ex_vel_infos ''reward_forward'' = Some (IFloat (Fin 1.0))"
    by blast
  from hd c have "forward_vel = Fin 2" by simp
  with one g have r: "ex_vel_infos ''reward_forward'' = Some (IFloat (Fin 1.0))"
    by (simp add: feq_def)
  have g': "goal_vel ex_vel_env_fast = Fin 3"
    by (simp add: ex_vel_env_fast_eq)
  have c': "body_comvel_torso (sim ex_vel_env_fast_after) = [Fin 2, Fin 0, Fin 0]"
    by (simp add: ex_vel_env_fast_after_def ex_physics_after_def)
  from vel_step_forward_reward[OF ex_vel_fast_run] obtain slow rest' where
    hd': "body_comvel_torso (sim ex_vel_env_fast_after) = slow # rest'"
    and fin: "\<forall>x g. slow = Fin x \<and> goal_vel ex_vel_env_fast = Fin g
          \<longrightarrow> ex_vel_infos_fast ''reward_forward'' = Some (IFloat (Fin (1.0 - \<bar>x - g\<bar>)))"
    by blast
  from hd' c' have "slow = Fin 2" by simp
  with fin g' have r': "ex_vel_infos_fast ''reward_forward''
      = Some (IFloat (Fin (1.0 - \<bar>2 - 3\<bar>)))"
    by blast
  then have r'': "ex_vel_infos_fast ''reward_forward'' = Some (IFloat (Fin 0))"
    by simp
  show ?thesis
    by (intro conjI ex_vel_run ex_vel_fast_run c g r c' g' r' r'')
qed

text \<open>
  C10. In every variant the reward a step returns is the sum of the four components of its
  info dictionary, \<open>reward_forward\<close> (\<open>reward_goal\<close> in the Position variant), \<open>reward_ctrl\<close>,
  \<open>reward_contact\<close> and \<open>reward_survive\<close>, added in this order; \<open>reward_ctrl\<close> and
  \<open>reward_contact\<close> are the negated costs \<open>-ctrl_cost\<close> and \<open>-contact_cost\<close>. Equality is
  that of the float values (a NaN reward is the NaN sum).
\<close>

theorem step_reward_is_sum_of_info_components:
  "(AntVelEnv_step fd f32 venv a = (venv', Inr (vobs, vreward, vdone, vinfos)) \<longrightarrow>
      (\<exists>task_reward ctrl_cost contact_cost survive_reward.
         vinfos ''reward_forward'' = Some (IFloat task_reward)
         \<and> vinfos ''reward_ctrl'' = Some (IFloat (fneg ctrl_cost))
         \<and> vinfos ''reward_contact'' = Some (IFloat (fneg contact_cost))
         \<and> vinfos ''reward_survive'' = Some (IFloat survive_reward)
         \<and> vreward = fadd (fadd (fadd task_reward (fneg ctrl_cost)) (fneg contact_cost))
                          survive_reward))
   \<and> (AntDirEnv_step fd f32 denv a = (denv', Inr (dobs, dreward, ddone, dinfos)) \<longrightarrow>
      (\<exists>task_reward ctrl_cost contact_cost survive_reward.
         dinfos ''reward_forward'' = Some (IFloat task_reward)
         \<and> dinfos ''reward_ctrl'' = Some (IFloat (fneg ctrl_cost))
         \<and> dinfos ''reward_contact'' = Some (IFloat (fneg contact_cost))
         \<and> dinfos ''reward_survive'' = Some (IFloat survive_reward)
         \<and> dreward = fadd (fadd (fadd task_reward (fneg ctrl_cost)) (fneg contact_cost))
                          survive_reward))
   \<and> (AntPosEnv_step fd f32 penv a = (penv', Inr (pobs, preward, pdone, pinfos)) \<longrightarrow>
      (\<exists>task_reward ctrl_cost contact_cost survive_reward.
         pinfos ''reward_goal'' = Some (IFloat task_reward)
         \<and> pinfos ''reward_ctrl'' = Some (IFloat (fneg ctrl_cost))
         \<and> pinfos ''reward_contact'' = Some (IFloat (fneg contact_cost))
         \<and> pinfos ''reward_survive'' = Some (IFloat survive_reward)
         \<and> preward = fadd (fadd (fadd task_reward (fneg ctrl_cost)) (fneg contact_cost))
                          survive_reward))"
proof (intro conjI impI)
  assume "AntVelEnv_step fd f32 venv a = (venv', Inr (vobs, vreward, vdone, vinfos))"
  from vel_step_Inr[OF this] obtain fv ctrl_cost contact_cost where
    "vreward = fadd (fsub (fsub (fadd (fmul (Fin (- 1.0)) (fabs (fsub fv (goal_vel venv))))
        (Fin 1.0)) ctrl_cost) contact_cost) (Fin 0.05)"
    and "vinfos = [''reward_forward'' \<mapsto>
           IFloat (fadd (fmul (Fin (- 1.0)) (fabs (fsub fv (goal_vel venv)))) (Fin 1.0)),
         ''reward_ctrl'' \<mapsto> IFloat (fneg ctrl_cost),
         ''reward_contact'' \<mapsto> IFloat (fneg contact_cost),
         ''reward_survive'' \<mapsto> IFloat (Fin 0.05),
         ''task'' \<mapsto> ITask (vel_task venv)]"
    by blast
  then show "\<exists>task_reward ctrl_cost contact_cost survive_reward.
         vinfos ''reward_forward'' = Some (IFloat task_reward)
         \<and> vinfos ''reward_ctrl'' = Some (IFloat (fneg ctrl_cost))
         \<and> vinfos ''reward_contact'' = Some (IFloat (fneg contact_cost))
         \<and> vinfos ''reward_survive'' = Some (IFloat survive_reward)
         \<and> vreward = fadd (fadd (fadd task_reward (fneg ctrl_cost)) (fneg contact_cost))
                          survive_reward"
    by (intro exI[of _ "fadd (fmul (Fin (- 1.0)) (fabs (fsub fv (goal_vel venv)))) (Fin 1.0)"] exI[of _ ctrl_cost]
          exI[of _ contact_cost] exI[of _ "Fin 0.05"])
       (simp add: fsub_as_fadd)
next
  assume "AntDirEnv_step fd f32 denv a = (denv', Inr (dobs, dreward, ddone, dinfos))"
  from dir_step_Inr[OF this] obtain fv ctrl_cost contact_cost where
    "dreward = fadd (fsub (fsub (fmul (Fin (real_of_int (goal_dir denv))) fv)
        ctrl_cost) contact_cost) (Fin 0.05)"
    and "dinfos = [''reward_forward'' \<mapsto> IFloat (fmul (Fin (real_of_int (goal_dir denv))) fv),
         ''reward_ctrl'' \<mapsto> IFloat (fneg ctrl_cost),
         ''reward_contact'' \<mapsto> IFloat (fneg contact_cost),
         ''reward_survive'' \<mapsto> IFloat (Fin 0.05),
         ''task'' \<mapsto> ITask (dir_task denv)]"
    by blast
  then show "\<exists>task_reward ctrl_cost contact_cost survive_reward.
         dinfos ''reward_forward'' = Some (IFloat task_reward)
         \<and> dinfos ''reward_ctrl'' = Some (IFloat (fneg ctrl_cost))
         \<and> dinfos ''reward_contact'' = Some (IFloat (fneg contact_cost))
         \<and> dinfos ''reward_survive'' = Some (IFloat survive_reward)
         \<and> dreward = fadd (fadd (fadd task_reward (fneg ctrl_cost)) (fneg contact_cost))
                          survive_reward"
    by (intro exI[of _ "fmul (Fin (real_of_int (goal_dir denv))) fv"] exI[of _ ctrl_cost]
          exI[of _ contact_cost] exI[of _ "Fin 0.05"])
       (simp add: fsub_as_fadd)
next
  assume "AntPosEnv_step fd f32 penv a = (penv', Inr (pobs, preward, pdone, pinfos))"
  from pos_step_Inr[OF this] obtain diff ctrl_cost contact_cost where
    "preward = fadd (fsub (fsub (fadd (fneg (np_sum (map fabs diff))) (Fin 4.0))
        ctrl_cost) contact_cost) (Fin 0.05)"
    and "pinfos = [''reward_goal'' \<mapsto> IFloat (fadd (fneg (np_sum (map fabs diff))) (Fin 4.0)),
         ''reward_ctrl'' \<mapsto> IFloat (fneg ctrl_cost),
         ''reward_contact'' \<mapsto> IFloat (fneg contact_cost),
         ''reward_survive'' \<mapsto> IFloat (Fin 0.05),
         ''task'' \<mapsto> ITask (pos_task penv)]"
    by blast
  then show "\<exists>task_reward ctrl_cost contact_cost survive_reward.
         pinfos ''reward_goal'' = Some (IFloat task_reward)
         \<and> pinfos ''reward_ctrl'' = Some (IFloat (fneg ctrl_cost))
         \<and> pinfos ''reward_contact'' = Some (IFloat (fneg contact_cost))
         \<and> pinfos ''reward_survive'' = Some (IFloat survive_reward)
         \<and> preward = fadd (fadd (fadd task_reward (fneg ctrl_cost)) (fneg contact_cost))
                          survive_reward"
    by (intro exI[of _ "fadd (fneg (np_sum (map fabs diff))) (Fin 4.0)"] exI[of _ ctrl_cost]
          exI[of _ contact_cost] exI[of _ "Fin 0.05"])
       (simp add: fsub_as_fadd)
qed

theorem step_reward_is_sum_of_info_components_witness:
  "AntVelEnv_step ex_dynamics ex_f32 ex_vel_env_reset ex_action
     = (ex_vel_env_after, Inr (ex_obs, Fin (1669 / 1600), False, ex_vel_infos))
   \<and> AntDirEnv_step ex_dynamics ex_f32 ex_dir_env_reset ex_action
     = (ex_dir_env_after, Inr (ex_obs, Fin (- (3131 / 1600)), False, ex_dir_infos))
   \<and> AntPosEnv_step ex_dynamics ex_f32 ex_pos_env_reset ex_action
     = (ex_pos_env_after, Inr (ex_obs, Fin (1669 / 1600), False, ex_pos_infos))
   \<and> Fin (1669 / 1600)
       = fadd (fadd (fadd (Fin 1) (Fin (- (1 / 160)))) (Fin (- (1 / 1600)))) (Fin (1 / 20))
   \<and> Fin (- (3131 / 1600))
       = fadd (fadd (fadd (Fin (- 2)) (Fin (- (1 / 160)))) (Fin (- (1 / 1600)))) (Fin (1 / 20))"
proof -
  note vel = step_reward_is_sum_of_info_components [THEN conjunct1, rule_format]
  note dir = step_reward_is_sum_of_info_components
    [THEN conjunct2, THEN conjunct1, rule_format]
  note pos = step_reward_is_sum_of_info_components
    [THEN conjunct2, THEN conjunct2, rule_format]
  have v: "Fin (1669 / 1600)
       = fadd (fadd (fadd (Fin 1) (Fin (- (1 / 160)))) (Fin (- (1 / 1600)))) (Fin (1 / 20))"
  proof -
    from vel[OF ex_vel_run] obtain t c k s where
      t: "ex_vel_infos ''reward_forward'' = Some (IFloat t)"
      and c: "ex_vel_infos ''reward_ctrl'' = Some (IFloat (fneg c))"
      and k: "ex_vel_infos ''reward_contact'' = Some (IFloat (fneg k))"
      and s: "ex_vel_infos ''reward_survive'' = Some (IFloat s)"
      and r: "Fin (1669 / 1600) = fadd (fadd (fadd t (fneg c)) (fneg k)) s"
      by blast
    have t': "t = Fin 1" using t by (simp add: ex_vel_infos_def)
    have c': "fneg c = Fin (- (1 / 160))" using c by (simp add: ex_vel_infos_def)
    have k': "fneg k = Fin (- (1 / 1600))" using k by (simp add: ex_vel_infos_def)
    have s': "s = Fin (1 / 20)" using s by (simp add: ex_vel_infos_def)
    from r show ?thesis unfolding t' c' k' s' .
  qed
  have d: "Fin (- (3131 / 1600))
       = fadd (fadd (fadd (Fin (- 2)) (Fin (- (1 / 160)))) (Fin (- (1 / 1600)))) (Fin (1 / 20))"
  proof -
    from dir[OF ex_dir_run] obtain t c k s where
      t: "ex_dir_infos ''reward_forward'' = Some (IFloat t)"
      and c: "ex_dir_infos ''reward_ctrl'' = Some (IFloat (fneg c))"
      and k: "ex_dir_infos ''reward_contact'' = Some (IFloat (fneg k))"
      and s: "ex_dir_infos ''reward_survive'' = Some (IFloat s)"
      and r: "Fin (- (3131 / 1600)) = fadd (fadd (fadd t (fneg c)) (fneg k)) s"
      by blast
    have t': "t = Fin (- 2)" using t by (simp add: ex_dir_infos_def)
    have c': "fneg c = Fin (- (1 / 160))" using c by (simp add: ex_dir_infos_def)
    have k': "fneg k = Fin (- (1 / 1600))" using k by (simp add: ex_dir_infos_def)
    have s': "s = Fin (1 / 20)" using s by (simp add: ex_dir_infos_def)
    from r show ?thesis unfolding t' c' k' s' .
  qed
  have p: "Fin (1669 / 1600)
       = fadd (fadd (fadd (Fin 1) (Fin (- (1 / 160)))) (Fin (- (1 / 1600)))) (Fin (1 / 20))"
  proof -
    from pos[OF ex_pos_run] obtain t c k s where
      t: "ex_pos_infos ''reward_goal'' = Some (IFloat t)"
      and c: "ex_pos_infos ''reward_ctrl'' = Some (IFloat (fneg c))"
      and k: "ex_pos_infos ''reward_contact'' = Some (IFloat (fneg k))"
      and s: "ex_pos_infos ''reward_survive'' = Some (IFloat s)"
      and r: "Fin (1669 / 1600) = fadd (fadd (fadd t (fneg c)) (fneg k)) s"
      by blast
    have t': "t = Fin 1" using t by (simp add: ex_pos_infos_def)
    have c': "fneg c = Fin (- (1 / 160))" using c by (simp add: ex_pos_infos_def)
    have k': "fneg k = Fin (- (1 / 1600))" using k by (simp add: ex_pos_infos_def)
    have s': "s = Fin (1 / 20)" using s by (simp add: ex_pos_infos_def)
    from r show ?thesis unfolding t' c' k' s' .
  qed
  from p show ?thesis by (intro conjI ex_vel_run ex_dir_run ex_pos_run v d)
qed

subsection \<open>Replacing the task\<close>

lemma vel_reset_with_key:
  "task ''velocity'' = Some v \<Longrightarrow>
     AntVelEnv_reset_task env task = (env\<lparr>vel_task := task, goal_vel := v\<rparr>, Inr ())"
  by (simp add: AntVelEnv_reset_task_def)

lemma dir_reset_with_key:
  "task ''direction'' = Some d \<Longrightarrow>
     AntDirEnv_reset_task env task = (env\<lparr>dir_task := task, goal_dir := d\<rparr>, Inr ())"
  by (simp add: AntDirEnv_reset_task_def)

lemma pos_reset_with_key:
  "task ''position'' = Some q \<Longrightarrow>
     AntPosEnv_reset_task env task = (env\<lparr>pos_task := task, goal_pos := q\<rparr>, Inr ())"
  by (simp add: AntPosEnv_reset_task_def)

lemma vel_step_goal:
  assumes "AntVelEnv_step fd f32 env a = (env', Inr (obs, reward, done, infos))"
  shows "\<exists>forward_vel rest. body_comvel_torso (sim env') = forward_vel # rest
    \<and> infos ''reward_forward''
        = Some (IFloat (fadd (fneg (fabs (fsub forward_vel (goal_vel env)))) (Fin 1.0)))"
proof -
  from vel_step_Inr[OF assms] obtain fv where
    ix: "index_at (body_comvel_torso (sim env')) 0 = Inr fv"
    and fr: "infos ''reward_forward''
       = Some (IFloat (fadd (fmul (Fin (- 1.0)) (fabs (fsub fv (goal_vel env)))) (Fin 1.0)))"
    by auto
  from index_at_0[OF ix] obtain rest where "body_comvel_torso (sim env') = fv # rest"
    by blast
  moreover have "infos ''reward_forward''
       = Some (IFloat (fadd (fneg (fabs (fsub fv (goal_vel env)))) (Fin 1.0)))"
    using fr by (simp add: fmul_minus_one)
  ultimately show ?thesis by blast
qed

lemma dir_step_goal:
  assumes "AntDirEnv_step fd f32 env a = (env', Inr (obs, reward, done, infos))"
  shows "\<exists>forward_vel rest. body_comvel_torso (sim env') = forward_vel # rest
    \<and> infos ''reward_forward''
        = Some (IFloat (fmul (Fin (real_of_int (goal_dir env))) forward_vel))"
proof -
  from dir_step_Inr[OF assms] obtain fv where
    ix: "index_at (body_comvel_torso (sim env')) 0 = Inr fv"
    and fr: "infos ''reward_forward''
       = Some (IFloat (fmul (Fin (real_of_int (goal_dir env))) fv))"
    by auto
  from index_at_0[OF ix] obtain rest where "body_comvel_torso (sim env') = fv # rest"
    by blast
  with fr show ?thesis by blast
qed

lemma pos_step_goal:
  assumes "AntPosEnv_step fd f32 env a = (env', Inr (obs, reward, done, infos))"
  shows "\<exists>diff. broadcast2 fsub (take 2 (body_com_torso (sim env'))) (goal_pos env) = Inr diff
    \<and> infos ''reward_goal''
        = Some (IFloat (fadd (fneg (np_sum (map fabs diff))) (Fin 4.0)))"
  using pos_step_Inr[OF assms] by auto

text \<open>
  C4. In every variant \<open>reset_task\<close> with a record that carries the variant's key stores
  the record and sets the goal field to the record's value; the simulator, the bounds of
  the action space, the cached action scaling and the random source are as before. A step
  taken next computes its task reward against the new goal: \<open>-|forward_vel - v| + 1.0\<close>
  for the velocity \<open>v\<close>, \<open>d * forward_vel\<close> for the direction \<open>d\<close>, and
  \<open>-sum(|xy - q|) + 4.0\<close> for the position \<open>q\<close>.
\<close>

theorem reset_task_sets_task_and_goal_only:
  "(vtask ''velocity'' = Some v \<longrightarrow>
      AntVelEnv_reset_task venv vtask = (venv\<lparr>vel_task := vtask, goal_vel := v\<rparr>, Inr ())
      \<and> sim (fst (AntVelEnv_reset_task venv vtask)) = sim venv
      \<and> self_action_scaling (fst (AntVelEnv_reset_task venv vtask)) = self_action_scaling venv
      \<and> action_space_low (fst (AntVelEnv_reset_task venv vtask)) = action_space_low venv
      \<and> action_space_high (fst (AntVelEnv_reset_task venv vtask)) = action_space_high venv
      \<and> np_random (fst (AntVelEnv_reset_task venv vtask)) = np_random venv
      \<and> (AntVelEnv_step fd f32 (fst (AntVelEnv_reset_task venv vtask)) a
            = (venv', Inr (vobs, vreward, vdone, vinfos)) \<longrightarrow>
          (\<exists>forward_vel rest. body_comvel_torso (sim venv') = forward_vel # rest
             \<and> vinfos ''reward_forward''
                 = Some (IFloat (fadd (fneg (fabs (fsub forward_vel v))) (Fin 1.0))))))
   \<and> (dtask ''direction'' = Some d \<longrightarrow>
      AntDirEnv_reset_task denv dtask = (denv\<lparr>dir_task := dtask, goal_dir := d\<rparr>, Inr ())
      \<and> sim (fst (AntDirEnv_reset_task denv dtask)) = sim denv
      \<and> self_action_scaling (fst (AntDirEnv_reset_task denv dtask)) = self_action_scaling denv
      \<and> action_space_low (fst (AntDirEnv_reset_task denv dtask)) = action_space_low denv
      \<and> action_space_high (fst (AntDirEnv_reset_task denv dtask)) = action_space_high denv
      \<and> np_random (fst (AntDirEnv_reset_task denv dtask)) = np_random denv
      \<and> (AntDirEnv_step fd f32 (fst (AntDirEnv_reset_task denv dtask)) a
            = (denv', Inr (dobs, dreward, ddone, dinfos)) \<longrightarrow>
          (\<exists>forward_vel rest. body_comvel_torso (sim denv') = forward_vel # rest
             \<and> dinfos ''reward_forward''
                 = Some (IFloat (fmul (Fin (real_of_int d)) forward_vel)))))
   \<and> (ptask ''position'' = Some q \<longrightarrow>
      AntPosEnv_reset_task penv ptask = (penv\<lparr>pos_task := ptask, goal_pos := q\<rparr>, Inr ())
      \<and> sim (fst (AntPosEnv_reset_task penv ptask)) = sim penv
      \<and> self_action_scaling (fst (AntPosEnv_reset_task penv ptask)) = self_action_scaling penv
      \<and> action_space_low (fst (AntPosEnv_reset_task penv ptask)) = action_space_low penv
      \<and> action_space_high (fst (AntPosEnv_reset_task penv ptask)) = action_space_high penv
      \<and> np_random (fst (AntPosEnv_reset_task penv ptask)) = np_random penv
      \<and> (AntPosEnv_step fd f32 (fst (AntPosEnv_reset_task penv ptask)) a
            = (penv', Inr (pobs, preward, pdone, pinfos)) \<longrightarrow>
          (\<exists>diff. broadcast2 fsub (take 2 (body_com_torso (sim penv'))) q = Inr diff
             \<and> pinfos ''reward_goal''
                 = Some (IFloat (fadd (fneg (np_sum (map fabs diff))) (Fin 4.0))))))"
proof (intro conjI impI)
  assume k: "vtask ''velocity'' = Some v"
  note r = vel_reset_with_key[where task = vtask and v = v and env = venv, OF k]
  show "AntVelEnv_reset_task venv vtask = (venv\<lparr>vel_task := vtask, goal_vel := v\<rparr>, Inr ())"
    by (rule r)
  show "sim (fst (AntVelEnv_reset_task venv vtask)) = sim venv" by (simp add: r)
  show "self_action_scaling (fst (AntVelEnv_reset_task venv vtask)) = self_action_scaling venv"
    by (simp add: r)
  show "action_space_low (fst (AntVelEnv_reset_task venv vtask)) = action_space_low venv"
    by (simp add: r)
  show "action_space_high (fst (AntVelEnv_reset_task venv vtask)) = action_space_high venv"
    by (simp add: r)
  show "np_random (fst (AntVelEnv_reset_task venv vtask)) = np_random venv" by (simp add: r)
  assume "AntVelEnv_step fd f32 (fst (AntVelEnv_reset_task venv vtask)) a
            = (venv', Inr (vobs, vreward, vdone, vinfos))"
  from vel_step_goal[OF this]
  show "\<exists>forward_vel rest. body_comvel_torso (sim venv') = forward_vel # rest
             \<and> vinfos ''reward_forward''
                 = Some (IFloat (fadd (fneg (fabs (fsub forward_vel v))) (Fin 1.0)))"
    by (simp add: r)
next
  assume k: "dtask ''direction'' = Some d"
  note r = dir_reset_with_key[where task = dtask and d = d and env = denv, OF k]
  show "AntDirEnv_reset_task denv dtask = (denv\<lparr>dir_task := dtask, goal_dir := d\<rparr>, Inr ())"
    by (rule r)
  show "sim (fst (AntDirEnv_reset_task denv dtask)) = sim denv" by (simp add: r)
  show "self_action_scaling (fst (AntDirEnv_reset_task denv dtask)) = self_action_scaling denv"
    by (simp add: r)
  show "action_space_low (fst (AntDirEnv_reset_task denv dtask)) = action_space_low denv"
    by (simp add: r)
  show "action_space_high (fst (AntDirEnv_reset_task denv dtask)) = action_space_high denv"
    by (simp add: r)
  show "np_random (fst (AntDirEnv_reset_task denv dtask)) = np_random denv" by (simp add: r)
  assume "AntDirEnv_step fd f32 (fst (AntDirEnv_reset_task denv dtask)) a
            = (denv', Inr (dobs, dreward, ddone, dinfos))"
  from dir_step_goal[OF this]
  show "\<exists>forward_vel rest. body_comvel_torso (sim denv') = forward_vel # rest
             \<and> dinfos ''reward_forward''
                 = Some (IFloat (fmul (Fin (real_of_int d)) forward_vel))"
    by (simp add: r)
next
  assume k: "ptask ''position'' = Some q"
  note r = pos_reset_with_key[where task = ptask and q = q and env = penv, OF k]
  show "AntPosEnv_reset_task penv ptask = (penv\<lparr>pos_task := ptask, goal_pos := q\<rparr>, Inr ())"
    by (rule r)
  show "sim (fst (AntPosEnv_reset_task penv ptask)) = sim penv" by (simp add: r)
  show "self_action_scaling (fst (AntPosEnv_reset_task penv ptask)) = self_action_scaling penv"
    by (simp add: r)
  show "action_space_low (fst (AntPosEnv_reset_task penv ptask)) = action_space_low penv"
    by (simp add: r)
  show "action_space_high (fst (AntPosEnv_reset_task penv ptask)) = action_space_high penv"
    by (simp add: r)
  show "np_random (fst (AntPosEnv_reset_task penv ptask)) = np_random penv" by (simp add: r)
  assume "AntPosEnv_step fd f32 (fst (AntPosEnv_reset_task penv ptask)) a
            = (penv', Inr (pobs, preward, pdone, pinfos))"
  from pos_step_goal[OF this]
  show "\<exists>diff. broadcast2 fsub (take 2 (body_com_torso (sim penv'))) q = Inr diff
             \<and> pinfos ''reward_goal''
                 = Some (IFloat (fadd (fneg (np_sum (map fabs diff))) (Fin 4.0)))"
    by (simp add: r)
qed

theorem reset_task_sets_task_and_goal_only_witness:
  "ex_vel_task ''velocity'' = Some (Fin 2)
   \<and> AntVelEnv_reset_task ex_vel_env ex_vel_task
       = (ex_vel_env\<lparr>vel_task := ex_vel_task, goal_vel := Fin 2\<rparr>, Inr ())
   \<and> ex_vel_infos ''reward_forward''
       = Some (IFloat (fadd (fneg (fabs (fsub (Fin 2) (Fin 2)))) (Fin 1.0)))
   \<and> ex_dir_task ''direction'' = Some (- 1)
   \<and> AntDirEnv_reset_task ex_dir_env ex_dir_task
       = (ex_dir_env\<lparr>dir_task := ex_dir_task, goal_dir := - 1\<rparr>, Inr ())
   \<and> ex_dir_infos ''reward_forward'' = Some (IFloat (fmul (Fin (real_of_int (- 1))) (Fin 2)))
   \<and> ex_pos_task ''position'' = Some [Fin 1, Fin (- 1)]
   \<and> AntPosEnv_reset_task ex_pos_env ex_pos_task
       = (ex_pos_env\<lparr>pos_task := ex_pos_task, goal_pos := [Fin 1, Fin (- 1)]\<rparr>, Inr ())
   \<and> ex_pos_infos ''reward_goal''
       = Some (IFloat (fadd (fneg (np_sum (map fabs [Fin 0, Fin 3]))) (Fin 4.0)))"
proof -
  note vel = reset_task_sets_task_and_goal_only [THEN conjunct1, rule_format]
  note dir = reset_task_sets_task_and_goal_only [THEN conjunct2, THEN conjunct1, rule_format]
  note pos = reset_task_sets_task_and_goal_only [THEN conjunct2, THEN conjunct2, rule_format]
  note vel_ex = vel[where vtask = ex_vel_task and v = "Fin 2" and venv = ex_vel_env]
  note dir_ex = dir[where dtask = ex_dir_task and d = "- 1" and denv = ex_dir_env]
  note pos_ex = pos[where ptask = ex_pos_task and q = "[Fin 1, Fin (- 1)]" and penv = ex_pos_env]
  have kv: "ex_vel_task ''velocity'' = Some (Fin 2)" by (simp add: ex_vel_task_def)
  have kd: "ex_dir_task ''direction'' = Some (- 1)" by (simp add: ex_dir_task_def)
  have kp: "ex_pos_task ''position'' = Some [Fin 1, Fin (- 1)]" by (simp add: ex_pos_task_def)
  have cv: "body_comvel_torso (sim ex_vel_env_after) = [Fin 2, Fin 0, Fin 0]"
    by (simp add: ex_vel_env_after_def ex_physics_after_def)
  have cd: "body_comvel_torso (sim ex_dir_env_after) = [Fin 2, Fin 0, Fin 0]"
    by (simp add: ex_dir_env_after_def ex_physics_after_def)
  have cp: "broadcast2 fsub (take 2 (body_com_torso (sim ex_pos_env_after))) [Fin 1, Fin (- 1)]
      = Inr [Fin 0, Fin 3]"
    by (simp add: ex_pos_env_after_def ex_physics_after_def broadcast2_def)
  have rv: "AntVelEnv_reset_task ex_vel_env ex_vel_task
       = (ex_vel_env\<lparr>vel_task := ex_vel_task, goal_vel := Fin 2\<rparr>, Inr ())"
    using vel_ex[OF kv] by blast
  have rd: "AntDirEnv_reset_task ex_dir_env ex_dir_task
       = (ex_dir_env\<lparr>dir_task := ex_dir_task, goal_dir := - 1\<rparr>, Inr ())"
    using dir_ex[OF kd] by blast
  have rp: "AntPosEnv_reset_task ex_pos_env ex_pos_task
       = (ex_pos_env\<lparr>pos_task := ex_pos_task, goal_pos := [Fin 1, Fin (- 1)]\<rparr>, Inr ())"
    using pos_ex[OF kp] by blast
  have sv: "ex_vel_infos ''reward_forward''
       = Some (IFloat (fadd (fneg (fabs (fsub (Fin 2) (Fin 2)))) (Fin 1.0)))"
  proof -
    from vel_ex[OF kv] ex_vel_run[unfolded ex_vel_env_reset_def]
    obtain forward_vel rest where
      "body_comvel_torso (sim ex_vel_env_after) = forward_vel # rest"
      and i: "ex_vel_infos ''reward_forward''
                 = Some (IFloat (fadd (fneg (fabs (fsub forward_vel (Fin 2)))) (Fin 1.0)))"
      by blast
    with cv have f: "forward_vel = Fin 2" by simp
    from i show ?thesis unfolding f .
  qed
  have sd: "ex_dir_infos ''reward_forward''
       = Some (IFloat (fmul (Fin (real_of_int (- 1))) (Fin 2)))"
  proof -
    from dir_ex[OF kd] ex_dir_run[unfolded ex_dir_env_reset_def]
    obtain forward_vel rest where
      "body_comvel_torso (sim ex_dir_env_after) = forward_vel # rest"
      and i: "ex_dir_infos ''reward_forward''
                 = Some (IFloat (fmul (Fin (real_of_int (- 1))) forward_vel))"
      by blast
    with cd have f: "forward_vel = Fin 2" by simp
    from i show ?thesis unfolding f .
  qed
  have sp: "ex_pos_infos ''reward_goal''
       = Some (IFloat (fadd (fneg (np_sum (map fabs [Fin 0, Fin 3]))) (Fin 4.0)))"
  proof -
    from pos_ex[OF kp] ex_pos_run[unfolded ex_pos_env_reset_def]
    obtain diff where
      "broadcast2 fsub (take 2 (body_com_torso (sim ex_pos_env_after))) [Fin 1, Fin (- 1)]
         = Inr diff"
      and i: "ex_pos_infos ''reward_goal''
                 = Some (IFloat (fadd (fneg (np_sum (map fabs diff))) (Fin 4.0)))"
      by blast
    with cp have f: "diff = [Fin 0, Fin 3]" by simp
    from i show ?thesis unfolding f .
  qed
  show ?thesis by (intro conjI kv kd kp rv rd rp sv sd sp)
qed

subsection \<open>What the calls leave of the cache and of the stored task\<close>

lemma scaling_of_bounds_first:
  assumes "self_action_scaling env = None"
    and "length (action_space_low env) = length (action_space_high env)"
  shows "action_scaling env =
    (env\<lparr>self_action_scaling :=
        Some (scaling_of_bounds (action_space_low env) (action_space_high env))\<rparr>,
     Inr (scaling_of_bounds (action_space_low env) (action_space_high env)))"
  using action_scaling_first[OF assms] by (simp add: scaling_of_bounds_def)

lemma cache_ok_sim: "cache_ok lb ub env \<Longrightarrow> cache_ok lb ub (env\<lparr>sim := p\<rparr>)"
  by (simp add: cache_ok_def)

lemma cache_ok_np_random: "cache_ok lb ub env \<Longrightarrow> cache_ok lb ub (env\<lparr>np_random := g\<rparr>)"
  by (simp add: cache_ok_def)

lemma cache_ok_access:
  assumes "length lb = length ub" and "cache_ok lb ub env"
  shows "cache_ok lb ub (fst (action_scaling env))
    \<and> snd (action_scaling env) = Inr (scaling_of_bounds lb ub)
    \<and> self_action_scaling (fst (action_scaling env)) = Some (scaling_of_bounds lb ub)"
proof (cases "self_action_scaling env")
  case None
  from assms have "length (action_space_low env) = length (action_space_high env)"
    by (simp add: cache_ok_def)
  from scaling_of_bounds_first[OF None this] assms(2) show ?thesis
    by (simp add: cache_ok_def)
next
  case (Some v)
  with assms(2) have "v = scaling_of_bounds lb ub" by (simp add: cache_ok_def)
  with Some assms(2) show ?thesis by (simp add: action_scaling_cached)
qed

lemma cached_sim:
  "self_action_scaling env = Some v \<Longrightarrow> self_action_scaling (env\<lparr>sim := p\<rparr>) = Some v"
  by simp

lemma vel_step_frame:
  "\<exists>p. fst (AntVelEnv_step fd f32 env a) = env\<lparr>sim := p\<rparr>
     \<or> fst (AntVelEnv_step fd f32 env a) = fst (action_scaling (env\<lparr>sim := p\<rparr>))"
proof -
  obtain p eo where fd: "fd (sim env) a = (p, eo)"
    by (cases "fd (sim env) a")
  obtain e2 r2 where s: "action_scaling (env\<lparr>sim := p\<rparr>) = (e2, r2)"
    by (cases "action_scaling (env\<lparr>sim := p\<rparr>)")
  have "fst (AntVelEnv_step fd f32 env a) = env\<lparr>sim := p\<rparr>
     \<or> fst (AntVelEnv_step fd f32 env a) = fst (action_scaling (env\<lparr>sim := p\<rparr>))"
    using fd s
    by (cases eo) (auto simp: AntVelEnv_step_def Let_def split: sum.splits)
  then show ?thesis by blast
qed

lemma vel_step_cache_ok:
  assumes "length lb = length ub" and "cache_ok lb ub env"
  shows "cache_ok lb ub (fst (AntVelEnv_step fd f32 env a))"
proof -
  from vel_step_frame[of fd f32 env a] obtain p where
    "fst (AntVelEnv_step fd f32 env a) = env\<lparr>sim := p\<rparr>
     \<or> fst (AntVelEnv_step fd f32 env a) = fst (action_scaling (env\<lparr>sim := p\<rparr>))"
    by blast
  moreover have "cache_ok lb ub (env\<lparr>sim := p\<rparr>)"
    using assms(2) by (rule cache_ok_sim)
  moreover have "cache_ok lb ub (fst (action_scaling (env\<lparr>sim := p\<rparr>)))"
    using cache_ok_access[OF assms(1) cache_ok_sim[OF assms(2)]] by blast
  ultimately show ?thesis by auto
qed

lemma vel_step_cached:
  assumes "self_action_scaling env = Some v"
  shows "self_action_scaling (fst (AntVelEnv_step fd f32 env a)) = Some v"
proof -
  from vel_step_frame[of fd f32 env a] obtain p where
    "fst (AntVelEnv_step fd f32 env a) = env\<lparr>sim := p\<rparr>
     \<or> fst (AntVelEnv_step fd f32 env a) = fst (action_scaling (env\<lparr>sim := p\<rparr>))"
    by blast
  moreover have "self_action_scaling (env\<lparr>sim := p\<rparr>) = Some v"
    using assms by simp
  moreover from this
  have "self_action_scaling (fst (action_scaling (env\<lparr>sim := p\<rparr>))) = Some v"
    by (rule action_scaling_keeps_cache)
  ultimately show ?thesis by auto
qed

lemma vel_step_task: "vel_task (fst (AntVelEnv_step fd f32 env a)) = vel_task env"
proof -
  from vel_step_frame[of fd f32 env a] obtain p where
    "fst (AntVelEnv_step fd f32 env a) = env\<lparr>sim := p\<rparr>
     \<or> fst (AntVelEnv_step fd f32 env a) = fst (action_scaling (env\<lparr>sim := p\<rparr>))"
    by blast
  moreover have "vel_task (fst (action_scaling (env\<lparr>sim := p\<rparr>))) = vel_task env"
    using action_scaling_vel_fields[of "env\<lparr>sim := p\<rparr>"
        "fst (action_scaling (env\<lparr>sim := p\<rparr>))" "snd (action_scaling (env\<lparr>sim := p\<rparr>))"]
    by simp
  ultimately show ?thesis by auto
qed

lemma vel_sample_tasks_frame:
  "fst (AntVelEnv_sample_tasks uniform env n)
     = env\<lparr>np_random := snd (uniform (Fin 0.0) (Fin 3.0) n (np_random env))\<rparr>"
  by (cases "uniform (Fin 0.0) (Fin 3.0) n (np_random env)")
     (simp add: AntVelEnv_sample_tasks_def Let_def)

lemma vel_reset_task_frame:
  "\<exists>t g. fst (AntVelEnv_reset_task env task) = env\<lparr>vel_task := t, goal_vel := g\<rparr>"
proof (cases "task ''velocity''")
  case None
  then have "fst (AntVelEnv_reset_task env task) = env\<lparr>vel_task := task, goal_vel := goal_vel env\<rparr>"
    by (simp add: AntVelEnv_reset_task_def)
  then show ?thesis by blast
next
  case (Some x)
  then have "fst (AntVelEnv_reset_task env task) = env\<lparr>vel_task := task, goal_vel := x\<rparr>"
    by (simp add: AntVelEnv_reset_task_def)
  then show ?thesis by blast
qed

lemma vel_call_cache_ok:
  assumes "length lb = length ub" and "cache_ok lb ub env"
  shows "cache_ok lb ub (AntVelEnv_call fd f32 uniform env c)"
proof (cases c)
  case (CallStep action)
  with vel_step_cache_ok[OF assms] show ?thesis by (simp add: AntVelEnv_call_def)
next
  case (CallSampleTasks n)
  from vel_sample_tasks_frame[of uniform env n] obtain g where
    "fst (AntVelEnv_sample_tasks uniform env n) = env\<lparr>np_random := g\<rparr>" by blast
  with CallSampleTasks cache_ok_np_random[OF assms(2)] show ?thesis
    by (simp add: AntVelEnv_call_def)
next
  case (CallResetTask task)
  from vel_reset_task_frame[of env task] obtain t g where
    "fst (AntVelEnv_reset_task env task) = env\<lparr>vel_task := t, goal_vel := g\<rparr>" by blast
  with CallResetTask assms(2) show ?thesis
    by (simp add: AntVelEnv_call_def cache_ok_def)
next
  case CallGetCurrentObs
  with assms(2) show ?thesis by (simp add: AntVelEnv_call_def)
next
  case CallActionScaling
  with cache_ok_access[OF assms] show ?thesis by (simp add: AntVelEnv_call_def)
qed

lemma vel_calls_cache_ok:
  assumes "length lb = length ub"
  shows "cache_ok lb ub env \<Longrightarrow> cache_ok lb ub (foldl (AntVelEnv_call fd f32 uniform) env calls)"
proof (induction calls arbitrary: env)
  case Nil
  then show ?case by simp
next
  case (Cons c calls)
  from vel_call_cache_ok[OF assms Cons.prems]
  have "cache_ok lb ub (AntVelEnv_call fd f32 uniform env c)" .
  from Cons.IH[OF this] show ?case by simp
qed

lemma vel_call_cached:
  assumes "self_action_scaling env = Some v"
  shows "self_action_scaling (AntVelEnv_call fd f32 uniform env c) = Some v"
proof (cases c)
  case (CallStep action)
  with vel_step_cached[OF assms] show ?thesis by (simp add: AntVelEnv_call_def)
next
  case (CallSampleTasks n)
  from vel_sample_tasks_frame[of uniform env n] obtain g where
    "fst (AntVelEnv_sample_tasks uniform env n) = env\<lparr>np_random := g\<rparr>" by blast
  with CallSampleTasks assms show ?thesis by (simp add: AntVelEnv_call_def)
next
  case (CallResetTask task)
  from vel_reset_task_frame[of env task] obtain t g where
    "fst (AntVelEnv_reset_task env task) = env\<lparr>vel_task := t, goal_vel := g\<rparr>" by blast
  with CallResetTask assms show ?thesis by (simp add: AntVelEnv_call_def)
next
  case CallGetCurrentObs
  with assms show ?thesis by (simp add: AntVelEnv_call_def)
next
  case CallActionScaling
  with action_scaling_keeps_cache[OF assms] show ?thesis by (simp add: AntVelEnv_call_def)
qed

lemma vel_calls_cached:
  "self_action_scaling env = Some v \<Longrightarrow>
     self_action_scaling (foldl (AntVelEnv_call fd f32 uniform) env calls) = Some v"
proof (induction calls arbitrary: env)
  case Nil
  then show ?case by simp
next
  case (Cons c calls)
  from vel_call_cached[OF Cons.prems]
  have "self_action_scaling (AntVelEnv_call fd f32 uniform env c) = Some v" .
  from Cons.IH[OF this] show ?case by simp
qed

lemma vel_call_task:
  assumes "\<forall>t. c \<noteq> CallResetTask t"
  shows "vel_task (AntVelEnv_call fd f32 uniform env c) = vel_task env"
proof (cases c)
  case (CallStep action)
  with vel_step_task[of fd f32 env action] show ?thesis by (simp add: AntVelEnv_call_def)
next
  case (CallSampleTasks n)
  from vel_sample_tasks_frame[of uniform env n] obtain g where
    "fst (AntVelEnv_sample_tasks uniform env n) = env\<lparr>np_random := g\<rparr>" by blast
  with CallSampleTasks show ?thesis by (simp add: AntVelEnv_call_def)
next
  case (CallResetTask task)
  with assms show ?thesis by simp
next
  case CallGetCurrentObs
  then show ?thesis by (simp add: AntVelEnv_call_def)
next
  case CallActionScaling
  with action_scaling_vel_fields[of env "fst (action_scaling env)" "snd (action_scaling env)"]
  show ?thesis by (simp add: AntVelEnv_call_def)
qed

lemma vel_calls_task:
  "\<forall>t. CallResetTask t \<notin> set calls \<Longrightarrow>
     vel_task (foldl (AntVelEnv_call fd f32 uniform) env calls) = vel_task env"
proof (induction calls arbitrary: env)
  case Nil
  then show ?case by simp
next
  case (Cons c calls)
  from Cons.prems have c: "\<forall>t. c \<noteq> CallResetTask t"
    and rest: "\<forall>t. CallResetTask t \<notin> set calls"
    by auto
  from Cons.IH[OF rest, of "AntVelEnv_call fd f32 uniform env c"] vel_call_task[OF c, of fd f32 uniform env]
  show ?case by simp
qed

lemma vel_access_any_time:
  assumes "self_action_scaling env = None"
    and "length (action_space_low env) = length (action_space_high env)"
  shows "snd (action_scaling (foldl (AntVelEnv_call fd f32 uniform) env calls))
      = Inr (scaling_of_bounds (action_space_low env) (action_space_high env))
    \<and> action_scaling
        (foldl (AntVelEnv_call fd f32 uniform)
           (fst (action_scaling (foldl (AntVelEnv_call fd f32 uniform) env calls))) later)
      = (foldl (AntVelEnv_call fd f32 uniform)
           (fst (action_scaling (foldl (AntVelEnv_call fd f32 uniform) env calls))) later,
         Inr (scaling_of_bounds (action_space_low env) (action_space_high env)))"
proof -
  have ok: "cache_ok (action_space_low env) (action_space_high env) env"
    using assms(1) by (simp add: cache_ok_def)
  have ok': "cache_ok (action_space_low env) (action_space_high env)
      (foldl (AntVelEnv_call fd f32 uniform) env calls)"
    using vel_calls_cache_ok[OF assms(2) ok] .
  from cache_ok_access[OF assms(2) ok']
  have r: "snd (action_scaling (foldl (AntVelEnv_call fd f32 uniform) env calls))
      = Inr (scaling_of_bounds (action_space_low env) (action_space_high env))"
    and c: "self_action_scaling (fst (action_scaling (foldl (AntVelEnv_call fd f32 uniform) env calls)))
      = Some (scaling_of_bounds (action_space_low env) (action_space_high env))"
    by blast+
  from action_scaling_cached[OF vel_calls_cached[OF c]] r show ?thesis by blast
qed

lemma dir_step_frame:
  "\<exists>p. fst (AntDirEnv_step fd f32 env a) = env\<lparr>sim := p\<rparr>
     \<or> fst (AntDirEnv_step fd f32 env a) = fst (action_scaling (env\<lparr>sim := p\<rparr>))"
proof -
  obtain p eo where fd: "fd (sim env) a = (p, eo)"
    by (cases "fd (sim env) a")
  obtain e2 r2 where s: "action_scaling (env\<lparr>sim := p\<rparr>) = (e2, r2)"
    by (cases "action_scaling (env\<lparr>sim := p\<rparr>)")
  have "fst (AntDirEnv_step fd f32 env a) = env\<lparr>sim := p\<rparr>
     \<or> fst (AntDirEnv_step fd f32 env a) = fst (action_scaling (env\<lparr>sim := p\<rparr>))"
    using fd s
    by (cases eo) (auto simp: AntDirEnv_step_def Let_def split: sum.splits)
  then show ?thesis by blast
qed

lemma dir_step_cache_ok:
  assumes "length lb = length ub" and "cache_ok lb ub env"
  shows "cache_ok lb ub (fst (AntDirEnv_step fd f32 env a))"
proof -
  from dir_step_frame[of fd f32 env a] obtain p where
    "fst (AntDirEnv_step fd f32 env a) = env\<lparr>sim := p\<rparr>
     \<or> fst (AntDirEnv_step fd f32 env a) = fst (action_scaling (env\<lparr>sim := p\<rparr>))"
    by blast
  moreover have "cache_ok lb ub (env\<lparr>sim := p\<rparr>)"
    using assms(2) by (rule cache_ok_sim)
  moreover have "cache_ok lb ub (fst (action_scaling (env\<lparr>sim := p\<rparr>)))"
    using cache_ok_access[OF assms(1) cache_ok_sim[OF assms(2)]] by blast
  ultimately show ?thesis by auto
qed

lemma dir_step_cached:
  assumes "self_action_scaling env = Some v"
  shows "self_action_scaling (fst (AntDirEnv_step fd f32 env a)) = Some v"
proof -
  from dir_step_frame[of fd f32 env a] obtain p where
    "fst (AntDirEnv_step fd f32 env a) = env\<lparr>sim := p\<rparr>
     \<or> fst (AntDirEnv_step fd f32 env a) = fst (action_scaling (env\<lparr>sim := p\<rparr>))"
    by blast
  moreover have "self_action_scaling (env\<lparr>sim := p\<rparr>) = Some v"
    using assms by simp
  moreover from this
  have "self_action_scaling (fst (action_scaling (env\<lparr>sim := p\<rparr>))) = Some v"
    by (rule action_scaling_keeps_cache)
  ultimately show ?thesis by auto
qed

lemma dir_step_task: "dir_task (fst (AntDirEnv_step fd f32 env a)) = dir_task env"
proof -
  from dir_step_frame[of fd f32 env a] obtain p where
    "fst (AntDirEnv_step fd f32 env a) = env\<lparr>sim := p\<rparr>
     \<or> fst (AntDirEnv_step fd f32 env a) = fst (action_scaling (env\<lparr>sim := p\<rparr>))"
    by blast
  moreover have "dir_task (fst (action_scaling (env\<lparr>sim := p\<rparr>))) = dir_task env"
    using action_scaling_dir_fields[of "env\<lparr>sim := p\<rparr>"
        "fst (action_scaling (env\<lparr>sim := p\<rparr>))" "snd (action_scaling (env\<lparr>sim := p\<rparr>))"]
    by simp
  ultimately show ?thesis by auto
qed

lemma dir_sample_tasks_frame:
  "fst (AntDirEnv_sample_tasks binomial_np env n)
     = env\<lparr>np_random := snd (binomial_np 1 0.5 n (np_random env))\<rparr>"
  by (cases "binomial_np 1 0.5 n (np_random env)")
     (simp add: AntDirEnv_sample_tasks_def Let_def)

lemma dir_reset_task_frame:
  "\<exists>t g. fst (AntDirEnv_reset_task env task) = env\<lparr>dir_task := t, goal_dir := g\<rparr>"
proof (cases "task ''direction''")
  case None
  then have "fst (AntDirEnv_reset_task env task) = env\<lparr>dir_task := task, goal_dir := goal_dir env\<rparr>"
    by (simp add: AntDirEnv_reset_task_def)
  then show ?thesis by blast
next
  case (Some x)
  then have "fst (AntDirEnv_reset_task env task) = env\<lparr>dir_task := task, goal_dir := x\<rparr>"
    by (simp add: AntDirEnv_reset_task_def)
  then show ?thesis by blast
qed

lemma dir_call_cache_ok:
  assumes "length lb = length ub" and "cache_ok lb ub env"
  shows "cache_ok lb ub (AntDirEnv_call fd f32 binomial_np env c)"
proof (cases c)
  case (CallStep action)
  with dir_step_cache_ok[OF assms] show ?thesis by (simp add: AntDirEnv_call_def)
next
  case (CallSampleTasks n)
  from dir_sample_tasks_frame[of binomial_np env n] obtain g where
    "fst (AntDirEnv_sample_tasks binomial_np env n) = env\<lparr>np_random := g\<rparr>" by blast
  with CallSampleTasks cache_ok_np_random[OF assms(2)] show ?thesis
    by (simp add: AntDirEnv_call_def)
next
  case (CallResetTask task)
  from dir_reset_task_frame[of env task] obtain t g where
    "fst (AntDirEnv_reset_task env task) = env\<lparr>dir_task := t, goal_dir := g\<rparr>" by blast
  with CallResetTask assms(2) show ?thesis
    by (simp add: AntDirEnv_call_def cache_ok_def)
next
  case CallGetCurrentObs
  with assms(2) show ?thesis by (simp add: AntDirEnv_call_def)
next
  case CallActionScaling
  with cache_ok_access[OF assms] show ?thesis by (simp add: AntDirEnv_call_def)
qed

lemma dir_calls_cache_ok:
  assumes "length lb = length ub"
  shows "cache_ok lb ub env \<Longrightarrow> cache_ok lb ub (foldl (AntDirEnv_call fd f32 binomial_np) env calls)"
proof (induction calls arbitrary: env)
  case Nil
  then show ?case by simp
next
  case (Cons c calls)
  from dir_call_cache_ok[OF assms Cons.prems]
  have "cache_ok lb ub (AntDirEnv_call fd f32 binomial_np env c)" .
  from Cons.IH[OF this] show ?case by simp
qed

lemma dir_call_cached:
  assumes "self_action_scaling env = Some v"
  shows "self_action_scaling (AntDirEnv_call fd f32 binomial_np env c) = Some v"
proof (cases c)
  case (CallStep action)
  with dir_step_cached[OF assms] show ?thesis by (simp add: AntDirEnv_call_def)
next
  case (CallSampleTasks n)
  from dir_sample_tasks_frame[of binomial_np env n] obtain g where
    "fst (AntDirEnv_sample_tasks binomial_np env n) = env\<lparr>np_random := g\<rparr>" by blast
  with CallSampleTasks assms show ?thesis by (simp add: AntDirEnv_call_def)
next
  case (CallResetTask task)
  from dir_reset_task_frame[of env task] obtain t g where
    "fst (AntDirEnv_reset_task env task) = env\<lparr>dir_task := t, goal_dir := g\<rparr>" by blast
  with CallResetTask assms show ?thesis by (simp add: AntDirEnv_call_def)
next
  case CallGetCurrentObs
  with assms show ?thesis by (simp add: AntDirEnv_call_def)
next
  case CallActionScaling
  with action_scaling_keeps_cache[OF assms] show ?thesis by (simp add: AntDirEnv_call_def)
qed

lemma dir_calls_cached:
  "self_action_scaling env = Some v \<Longrightarrow>
     self_action_scaling (foldl (AntDirEnv_call fd f32 binomial_np) env calls) = Some v"
proof (induction calls arbitrary: env)
  case Nil
  then show ?case by simp
next
  case (Cons c calls)
  from dir_call_cached[OF Cons.prems]
  have "self_action_scaling (AntDirEnv_call fd f32 binomial_np env c) = Some v" .
  from Cons.IH[OF this] show ?case by simp
qed

lemma dir_call_task:
  assumes "\<forall>t. c \<noteq> CallResetTask t"
  shows "dir_task (AntDirEnv_call fd f32 binomial_np env c) = dir_task env"
proof (cases c)
  case (CallStep action)
  with dir_step_task[of fd f32 env action] show ?thesis by (simp add: AntDirEnv_call_def)
next
  case (CallSampleTasks n)
  from dir_sample_tasks_frame[of binomial_np env n] obtain g where
    "fst (AntDirEnv_sample_tasks binomial_np env n) = env\<lparr>np_random := g\<rparr>" by blast
  with CallSampleTasks show ?thesis by (simp add: AntDirEnv_call_def)
next
  case (CallResetTask task)
  with assms show ?thesis by simp
next
  case CallGetCurrentObs
  then show ?thesis by (simp add: AntDirEnv_call_def)
next
  case CallActionScaling
  with action_scaling_dir_fields[of env "fst (action_scaling env)" "snd (action_scaling env)"]
  show ?thesis by (simp add: AntDirEnv_call_def)
qed

lemma dir_calls_task:
  "\<forall>t. CallResetTask t \<notin> set calls \<Longrightarrow>
     dir_task (foldl (AntDirEnv_call fd f32 binomial_np) env calls) = dir_task env"
proof (induction calls arbitrary: env)
  case Nil
  then show ?case by simp
next
  case (Cons c calls)
  from Cons.prems have c: "\<forall>t. c \<noteq> CallResetTask t"
    and rest: "\<forall>t. CallResetTask t \<notin> set calls"
    by auto
  from Cons.IH[OF rest, of "AntDirEnv_call fd f32 binomial_np env c"] dir_call_task[OF c, of fd f32 binomial_np env]
  show ?case by simp
qed

lemma dir_access_any_time:
  assumes "self_action_scaling env = None"
    and "length (action_space_low env) = length (action_space_high env)"
  shows "snd (action_scaling (foldl (AntDirEnv_call fd f32 binomial_np) env calls))
      = Inr (scaling_of_bounds (action_space_low env) (action_space_high env))
    \<and> action_scaling
        (foldl (AntDirEnv_call fd f32 binomial_np)
           (fst (action_scaling (foldl (AntDirEnv_call fd f32 binomial_np) env calls))) later)
      = (foldl (AntDirEnv_call fd f32 binomial_np)
           (fst (action_scaling (foldl (AntDirEnv_call fd f32 binomial_np) env calls))) later,
         Inr (scaling_of_bounds (action_space_low env) (action_space_high env)))"
proof -
  have ok: "cache_ok (action_space_low env) (action_space_high env) env"
    using assms(1) by (simp add: cache_ok_def)
  have ok': "cache_ok (action_space_low env) (action_space_high env)
      (foldl (AntDirEnv_call fd f32 binomial_np) env calls)"
    using dir_calls_cache_ok[OF assms(2) ok] .
  from cache_ok_access[OF assms(2) ok']
  have r: "snd (action_scaling (foldl (AntDirEnv_call fd f32 binomial_np) env calls))
      = Inr (scaling_of_bounds (action_space_low env) (action_space_high env))"
    and c: "self_action_scaling (fst (action_scaling (foldl (AntDirEnv_call fd f32 binomial_np) env calls)))
      = Some (scaling_of_bounds (action_space_low env) (action_space_high env))"
    by blast+
  from action_scaling_cached[OF dir_calls_cached[OF c]] r show ?thesis by blast
qed

lemma pos_step_frame:
  "\<exists>p. fst (AntPosEnv_step fd f32 env a) = env\<lparr>sim := p\<rparr>
     \<or> fst (AntPosEnv_step fd f32 env a) = fst (action_scaling (env\<lparr>sim := p\<rparr>))"
proof -
  obtain p eo where fd: "fd (sim env) a = (p, eo)"
    by (cases "fd (sim env) a")
  obtain e2 r2 where s: "action_scaling (env\<lparr>sim := p\<rparr>) = (e2, r2)"
    by (cases "action_scaling (env\<lparr>sim := p\<rparr>)")
  have "fst (AntPosEnv_step fd f32 env a) = env\<lparr>sim := p\<rparr>
     \<or> fst (AntPosEnv_step fd f32 env a) = fst (action_scaling (env\<lparr>sim := p\<rparr>))"
    using fd s
    by (cases eo) (auto simp: AntPosEnv_step_def Let_def split: sum.splits)
  then show ?thesis by blast
qed

lemma pos_step_cache_ok:
  assumes "length lb = length ub" and "cache_ok lb ub env"
  shows "cache_ok lb ub (fst (AntPosEnv_step fd f32 env a))"
proof -
  from pos_step_frame[of fd f32 env a] obtain p where
    "fst (AntPosEnv_step fd f32 env a) = env\<lparr>sim := p\<rparr>
     \<or> fst (AntPosEnv_step fd f32 env a) = fst (action_scaling (env\<lparr>sim := p\<rparr>))"
    by blast
  moreover have "cache_ok lb ub (env\<lparr>sim := p\<rparr>)"
    using assms(2) by (rule cache_ok_sim)
  moreover have "cache_ok lb ub (fst (action_scaling (env\<lparr>sim := p\<rparr>)))"
    using cache_ok_access[OF assms(1) cache_ok_sim[OF assms(2)]] by blast
  ultimately show ?thesis by auto
qed

lemma pos_step_cached:
  assumes "self_action_scaling env = Some v"
  shows "self_action_scaling (fst (AntPosEnv_step fd f32 env a)) = Some v"
proof -
  from pos_step_frame[of fd f32 env a] obtain p where
    "fst (AntPosEnv_step fd f32 env a) = env\<lparr>sim := p\<rparr>
     \<or> fst (AntPosEnv_step fd f32 env a) = fst (action_scaling (env\<lparr>sim := p\<rparr>))"
    by blast
  moreover have "self_action_scaling (env\<lparr>sim := p\<rparr>) = Some v"
    using assms by simp
  moreover from this
  have "self_action_scaling (fst (action_scaling (env\<lparr>sim := p\<rparr>))) = Some v"
    by (rule action_scaling_keeps_cache)
  ultimately show ?thesis by auto
qed

lemma pos_step_task: "pos_task (fst (AntPosEnv_step fd f32 env a)) = pos_task env"
proof -
  from pos_step_frame[of fd f32 env a] obtain p where
    "fst (AntPosEnv_step fd f32 env a) = env\<lparr>sim := p\<rparr>
     \<or> fst (AntPosEnv_step fd f32 env a) = fst (action_scaling (env\<lparr>sim := p\<rparr>))"
    by blast
  moreover have "pos_task (fst (action_scaling (env\<lparr>sim := p\<rparr>))) = pos_task env"
    using action_scaling_pos_fields[of "env\<lparr>sim := p\<rparr>"
        "fst (action_scaling (env\<lparr>sim := p\<rparr>))" "snd (action_scaling (env\<lparr>sim := p\<rparr>))"]
    by simp
  ultimately show ?thesis by auto
qed

lemma pos_sample_tasks_frame:
  "fst (AntPosEnv_sample_tasks uniform env n)
     = env\<lparr>np_random := snd (uniform (Fin (- 3.0)) (Fin 3.0) (n * 2) (np_random env))\<rparr>"
  by (cases "uniform (Fin (- 3.0)) (Fin 3.0) (n * 2) (np_random env)")
     (simp add: AntPosEnv_sample_tasks_def Let_def)

lemma pos_reset_task_frame:
  "\<exists>t g. fst (AntPosEnv_reset_task env task) = env\<lparr>pos_task := t, goal_pos := g\<rparr>"
proof (cases "task ''position''")
  case None
  then have "fst (AntPosEnv_reset_task env task) = env\<lparr>pos_task := task, goal_pos := goal_pos env\<rparr>"
    by (simp add: AntPosEnv_reset_task_def)
  then show ?thesis by blast
next
  case (Some x)
  then have "fst (AntPosEnv_reset_task env task) = env\<lparr>pos_task := task, goal_pos := x\<rparr>"
    by (simp add: AntPosEnv_reset_task_def)
  then show ?thesis by blast
qed

lemma pos_call_cache_ok:
  assumes "length lb = length ub" and "cache_ok lb ub env"
  shows "cache_ok lb ub (AntPosEnv_call fd f32 uniform env c)"
proof (cases c)
  case (CallStep action)
  with pos_step_cache_ok[OF assms] show ?thesis by (simp add: AntPosEnv_call_def)
next
  case (CallSampleTasks n)
  from pos_sample_tasks_frame[of uniform env n] obtain g where
    "fst (AntPosEnv_sample_tasks uniform env n) = env\<lparr>np_random := g\<rparr>" by blast
  with CallSampleTasks cache_ok_np_random[OF assms(2)] show ?thesis
    by (simp add: AntPosEnv_call_def)
next
  case (CallResetTask task)
  from pos_reset_task_frame[of env task] obtain t g where
    "fst (AntPosEnv_reset_task env task) = env\<lparr>pos_task := t, goal_pos := g\<rparr>" by blast
  with CallResetTask assms(2) show ?thesis
    by (simp add: AntPosEnv_call_def cache_ok_def)
next
  case CallGetCurrentObs
  with assms(2) show ?thesis by (simp add: AntPosEnv_call_def)
next
  case CallActionScaling
  with cache_ok_access[OF assms] show ?thesis by (simp add: AntPosEnv_call_def)
qed

lemma pos_calls_cache_ok:
  assumes "length lb = length ub"
  shows "cache_ok lb ub env \<Longrightarrow> cache_ok lb ub (foldl (AntPosEnv_call fd f32 uniform) env calls)"
proof (induction calls arbitrary: env)
  case Nil
  then show ?case by simp
next
  case (Cons c calls)
  from pos_call_cache_ok[OF assms Cons.prems]
  have "cache_ok lb ub (AntPosEnv_call fd f32 uniform env c)" .
  from Cons.IH[OF this] show ?case by simp
qed

lemma pos_call_cached:
  assumes "self_action_scaling env = Some v"
  shows "self_action_scaling (AntPosEnv_call fd f32 uniform env c) = Some v"
proof (cases c)
  case (CallStep action)
  with pos_step_cached[OF assms] show ?thesis by (simp add: AntPosEnv_call_def)
next
  case (CallSampleTasks n)
  from pos_sample_tasks_frame[of uniform env n] obtain g where
    "fst (AntPosEnv_sample_tasks uniform env n) = env\<lparr>np_random := g\<rparr>" by blast
  with CallSampleTasks assms show ?thesis by (simp add: AntPosEnv_call_def)
next
  case (CallResetTask task)
  from pos_reset_task_frame[of env task] obtain t g where
    "fst (AntPosEnv_reset_task env task) = env\<lparr>pos_task := t, goal_pos := g\<rparr>" by blast
  with CallResetTask assms show ?thesis by (simp add: AntPosEnv_call_def)
next
  case CallGetCurrentObs
  with assms show ?thesis by (simp add: AntPosEnv_call_def)
next
  case CallActionScaling
  with action_scaling_keeps_cache[OF assms] show ?thesis by (simp add: AntPosEnv_call_def)
qed

lemma pos_calls_cached:
  "self_action_scaling env = Some v \<Longrightarrow>
     self_action_scaling (foldl (AntPosEnv_call fd f32 uniform) env calls) = Some v"
proof (induction calls arbitrary: env)
  case Nil
  then show ?case by simp
next
  case (Cons c calls)
  from pos_call_cached[OF Cons.prems]
  have "self_action_scaling (AntPosEnv_call fd f32 uniform env c) = Some v" .
  from Cons.IH[OF this] show ?case by simp
qed

lemma pos_call_task:
  assumes "\<forall>t. c \<noteq> CallResetTask t"
  shows "pos_task (AntPosEnv_call fd f32 uniform env c) = pos_task env"
proof (cases c)
  case (CallStep action)
  with pos_step_task[of fd f32 env action] show ?thesis by (simp add: AntPosEnv_call_def)
next
  case (CallSampleTasks n)
  from pos_sample_tasks_frame[of uniform env n] obtain g where
    "fst (AntPosEnv_sample_tasks uniform env n) = env\<lparr>np_random := g\<rparr>" by blast
  with CallSampleTasks show ?thesis by (simp add: AntPosEnv_call_def)
next
  case (CallResetTask task)
  with assms show ?thesis by simp
next
  case CallGetCurrentObs
  then show ?thesis by (simp add: AntPosEnv_call_def)
next
  case CallActionScaling
  with action_scaling_pos_fields[of env "fst (action_scaling env)" "snd (action_scaling env)"]
  show ?thesis by (simp add: AntPosEnv_call_def)
qed

lemma pos_calls_task:
  "\<forall>t. CallResetTask t \<notin> set calls \<Longrightarrow>
     pos_task (foldl (AntPosEnv_call fd f32 uniform) env calls) = pos_task env"
proof (induction calls arbitrary: env)
  case Nil
  then show ?case by simp
next
  case (Cons c calls)
  from Cons.prems have c: "\<forall>t. c \<noteq> CallResetTask t"
    and rest: "\<forall>t. CallResetTask t \<notin> set calls"
    by auto
  from Cons.IH[OF rest, of "AntPosEnv_call fd f32 uniform env c"] pos_call_task[OF c, of fd f32 uniform env]
  show ?case by simp
qed

lemma pos_access_any_time:
  assumes "self_action_scaling env = None"
    and "length (action_space_low env) = length (action_space_high env)"
  shows "snd (action_scaling (foldl (AntPosEnv_call fd f32 uniform) env calls))
      = Inr (scaling_of_bounds (action_space_low env) (action_space_high env))
    \<and> action_scaling
        (foldl (AntPosEnv_call fd f32 uniform)
           (fst (action_scaling (foldl (AntPosEnv_call fd f32 uniform) env calls))) later)
      = (foldl (AntPosEnv_call fd f32 uniform)
           (fst (action_scaling (foldl (AntPosEnv_call fd f32 uniform) env calls))) later,
         Inr (scaling_of_bounds (action_space_low env) (action_space_high env)))"
proof -
  have ok: "cache_ok (action_space_low env) (action_space_high env) env"
    using assms(1) by (simp add: cache_ok_def)
  have ok': "cache_ok (action_space_low env) (action_space_high env)
      (foldl (AntPosEnv_call fd f32 uniform) env calls)"
    using pos_calls_cache_ok[OF assms(2) ok] .
  from cache_ok_access[OF assms(2) ok']
  have r: "snd (action_scaling (foldl (AntPosEnv_call fd f32 uniform) env calls))
      = Inr (scaling_of_bounds (action_space_low env) (action_space_high env))"
    and c: "self_action_scaling (fst (action_scaling (foldl (AntPosEnv_call fd f32 uniform) env calls)))
      = Some (scaling_of_bounds (action_space_low env) (action_space_high env))"
    by blast+
  from action_scaling_cached[OF pos_calls_cached[OF c]] r show ?thesis by blast
qed


subsection \<open>The action scaling is computed once\<close>

lemma scaling_of_bounds_nth:
  assumes "length lb = length ub" and "i < length ub"
  shows "scaling_of_bounds lb ub ! i = fmul (Fin 0.5) (fsub (ub ! i) (lb ! i))"
  using assms by (simp add: scaling_of_bounds_def)

text \<open>
  C3. A constructed instance of any variant has no action scaling yet. On an instance
  without one, whose bounds \<open>lb\<close> and \<open>ub\<close> have one length, the property
  \<open>action_scaling\<close> returns \<open>0.5*(ub-lb)\<close> element by element and stores it. Whatever
  calls (steps, \<open>sample_tasks\<close>, \<open>reset_task\<close>, observations, accesses) are made
  before an access, the access returns that vector; and whatever calls are made after an
  access, a later access returns the same vector and leaves the instance as it is, so
  nothing is computed again. The bounds are read only while no vector is held: an instance
  that holds a vector returns the vector it holds, whatever its bounds are, and still does
  so after any calls.
\<close>

theorem action_scaling_computed_once:
  "self_action_scaling (AntVelEnv_init base vtask) = None
   \<and> self_action_scaling (AntDirEnv_init base dtask) = None
   \<and> self_action_scaling (AntPosEnv_init base ptask) = None
   \<and> (length lb = length ub \<and> i < length ub \<longrightarrow>
        scaling_of_bounds lb ub ! i = fmul (Fin 0.5) (fsub (ub ! i) (lb ! i)))
   \<and> (self_action_scaling cenv = Some v \<longrightarrow> action_scaling cenv = (cenv, Inr v))
   \<and> (self_action_scaling venv = Some v \<longrightarrow>
        action_scaling (foldl (AntVelEnv_call fd f32 vrng) venv vcalls)
          = (foldl (AntVelEnv_call fd f32 vrng) venv vcalls, Inr v))
   \<and> (self_action_scaling denv = Some v \<longrightarrow>
        action_scaling (foldl (AntDirEnv_call fd f32 drng) denv dcalls)
          = (foldl (AntDirEnv_call fd f32 drng) denv dcalls, Inr v))
   \<and> (self_action_scaling penv = Some v \<longrightarrow>
        action_scaling (foldl (AntPosEnv_call fd f32 prng) penv pcalls)
          = (foldl (AntPosEnv_call fd f32 prng) penv pcalls, Inr v))
   \<and> (self_action_scaling venv = None
        \<and> length (action_space_low venv) = length (action_space_high venv) \<longrightarrow>
      action_scaling venv
          = (venv\<lparr>self_action_scaling :=
                Some (scaling_of_bounds (action_space_low venv) (action_space_high venv))\<rparr>,
             Inr (scaling_of_bounds (action_space_low venv) (action_space_high venv)))
      \<and> snd (action_scaling (foldl (AntVelEnv_call fd f32 vrng) venv vcalls))
          = Inr (scaling_of_bounds (action_space_low venv) (action_space_high venv))
      \<and> action_scaling
          (foldl (AntVelEnv_call fd f32 vrng)
             (fst (action_scaling (foldl (AntVelEnv_call fd f32 vrng) venv vcalls))) vlater)
          = (foldl (AntVelEnv_call fd f32 vrng)
               (fst (action_scaling (foldl (AntVelEnv_call fd f32 vrng) venv vcalls))) vlater,
             Inr (scaling_of_bounds (action_space_low venv) (action_space_high venv))))
   \<and> (self_action_scaling denv = None
        \<and> length (action_space_low denv) = length (action_space_high denv) \<longrightarrow>
      action_scaling denv
          = (denv\<lparr>self_action_scaling :=
                Some (scaling_of_bounds (action_space_low denv) (action_space_high denv))\<rparr>,
             Inr (scaling_of_bounds (action_space_low denv) (action_space_high denv)))
      \<and> snd (action_scaling (foldl (AntDirEnv_call fd f32 drng) denv dcalls))
          = Inr (scaling_of_bounds (action_space_low denv) (action_space_high denv))
      \<and> action_scaling
          (foldl (AntDirEnv_call fd f32 drng)
             (fst (action_scaling (foldl (AntDirEnv_call fd f32 drng) denv dcalls))) dlater)
          = (foldl (AntDirEnv_call fd f32 drng)
               (fst (action_scaling (foldl (AntDirEnv_call fd f32 drng) denv dcalls))) dlater,
             Inr (scaling_of_bounds (action_space_low denv) (action_space_high denv))))
   \<and> (self_action_scaling penv = None
        \<and> length (action_space_low penv) = length (action_space_high penv) \<longrightarrow>
      action_scaling penv
          = (penv\<lparr>self_action_scaling :=
                Some (scaling_of_bounds (action_space_low penv) (action_space_high penv))\<rparr>,
             Inr (scaling_of_bounds (action_space_low penv) (action_space_high penv)))
      \<and> snd (action_scaling (foldl (AntPosEnv_call fd f32 prng) penv pcalls))
          = Inr (scaling_of_bounds (action_space_low penv) (action_space_high penv))
      \<and> action_scaling
          (foldl (AntPosEnv_call fd f32 prng)
             (fst (action_scaling (foldl (AntPosEnv_call fd f32 prng) penv pcalls))) plater)
          = (foldl (AntPosEnv_call fd f32 prng)
               (fst (action_scaling (foldl (AntPosEnv_call fd f32 prng) penv pcalls))) plater,
             Inr (scaling_of_bounds (action_space_low penv) (action_space_high penv))))"
proof (intro conjI impI)
  show "self_action_scaling (AntVelEnv_init base vtask) = None"
    by (simp add: AntVelEnv_init_def)
  show "self_action_scaling (AntDirEnv_init base dtask) = None"
    by (simp add: AntDirEnv_init_def)
  show "self_action_scaling (AntPosEnv_init base ptask) = None"
    by (simp add: AntPosEnv_init_def)
next
  assume "length lb = length ub \<and> i < length ub"
  then show "scaling_of_bounds lb ub ! i = fmul (Fin 0.5) (fsub (ub ! i) (lb ! i))"
    using scaling_of_bounds_nth by blast
next
  assume "self_action_scaling cenv = Some v"
  then show "action_scaling cenv = (cenv, Inr v)"
    by (rule action_scaling_cached)
next
  assume c: "self_action_scaling venv = Some v"
  show "action_scaling (foldl (AntVelEnv_call fd f32 vrng) venv vcalls)
          = (foldl (AntVelEnv_call fd f32 vrng) venv vcalls, Inr v)"
    using action_scaling_cached[OF vel_calls_cached[OF c]] .
next
  assume c: "self_action_scaling denv = Some v"
  show "action_scaling (foldl (AntDirEnv_call fd f32 drng) denv dcalls)
          = (foldl (AntDirEnv_call fd f32 drng) denv dcalls, Inr v)"
    using action_scaling_cached[OF dir_calls_cached[OF c]] .
next
  assume c: "self_action_scaling penv = Some v"
  show "action_scaling (foldl (AntPosEnv_call fd f32 prng) penv pcalls)
          = (foldl (AntPosEnv_call fd f32 prng) penv pcalls, Inr v)"
    using action_scaling_cached[OF pos_calls_cached[OF c]] .
next
  assume h: "self_action_scaling venv = None
        \<and> length (action_space_low venv) = length (action_space_high venv)"
  then have n: "self_action_scaling venv = None"
    and l: "length (action_space_low venv) = length (action_space_high venv)"
    by blast+
  note any = vel_access_any_time[OF n l, of fd f32 vrng vcalls vlater]
  show "action_scaling venv
          = (venv\<lparr>self_action_scaling :=
                Some (scaling_of_bounds (action_space_low venv) (action_space_high venv))\<rparr>,
             Inr (scaling_of_bounds (action_space_low venv) (action_space_high venv)))"
    using scaling_of_bounds_first[OF n l] .
  show "snd (action_scaling (foldl (AntVelEnv_call fd f32 vrng) venv vcalls))
          = Inr (scaling_of_bounds (action_space_low venv) (action_space_high venv))"
    using any by blast
  show "action_scaling
          (foldl (AntVelEnv_call fd f32 vrng)
             (fst (action_scaling (foldl (AntVelEnv_call fd f32 vrng) venv vcalls))) vlater)
          = (foldl (AntVelEnv_call fd f32 vrng)
               (fst (action_scaling (foldl (AntVelEnv_call fd f32 vrng) venv vcalls))) vlater,
             Inr (scaling_of_bounds (action_space_low venv) (action_space_high venv)))"
    using any by blast
next
  assume h: "self_action_scaling denv = None
        \<and> length (action_space_low denv) = length (action_space_high denv)"
  then have n: "self_action_scaling denv = None"
    and l: "length (action_space_low denv) = length (action_space_high denv)"
    by blast+
  note any = dir_access_any_time[OF n l, of fd f32 drng dcalls dlater]
  show "action_scaling denv
          = (denv\<lparr>self_action_scaling :=
                Some (scaling_of_bounds (action_space_low denv) (action_space_high denv))\<rparr>,
             Inr (scaling_of_bounds (action_space_low denv) (action_space_high denv)))"
    using scaling_of_bounds_first[OF n l] .
  show "snd (action_scaling (foldl (AntDirEnv_call fd f32 drng) denv dcalls))
          = Inr (scaling_of_bounds (action_space_low denv) (action_space_high denv))"
    using any by blast
  show "action_scaling
          (foldl (AntDirEnv_call fd f32 drng)
             (fst (action_scaling (foldl (AntDirEnv_call fd f32 drng) denv dcalls))) dlater)
          = (foldl (AntDirEnv_call fd f32 drng)
               (fst (action_scaling (foldl (AntDirEnv_call fd f32 drng) denv dcalls))) dlater,
             Inr (scaling_of_bounds (action_space_low denv) (action_space_high denv)))"
    using any by blast
next
  assume h: "self_action_scaling penv = None
        \<and> length (action_space_low penv) = length (action_space_high penv)"
  then have n: "self_action_scaling penv = None"
    and l: "length (action_space_low penv) = length (action_space_high penv)"
    by blast+
  note any = pos_access_any_time[OF n l, of fd f32 prng pcalls plater]
  show "action_scaling penv
          = (penv\<lparr>self_action_scaling :=
                Some (scaling_of_bounds (action_space_low penv) (action_space_high penv))\<rparr>,
             Inr (scaling_of_bounds (action_space_low penv) (action_space_high penv)))"
    using scaling_of_bounds_first[OF n l] .
  show "snd (action_scaling (foldl (AntPosEnv_call fd f32 prng) penv pcalls))
          = Inr (scaling_of_bounds (action_space_low penv) (action_space_high penv))"
    using any by blast
  show "action_scaling
          (foldl (AntPosEnv_call fd f32 prng)
             (fst (action_scaling (foldl (AntPosEnv_call fd f32 prng) penv pcalls))) plater)
          = (foldl (AntPosEnv_call fd f32 prng)
               (fst (action_scaling (foldl (AntPosEnv_call fd f32 prng) penv pcalls))) plater,
             Inr (scaling_of_bounds (action_space_low penv) (action_space_high penv)))"
    using any by blast
qed

theorem action_scaling_computed_once_witness:
  "ex_vel_env = AntVelEnv_init ex_base ex_no_key
   \<and> self_action_scaling ex_vel_env = None
   \<and> length (action_space_low ex_vel_env) = length (action_space_high ex_vel_env)
   \<and> action_scaling ex_vel_env
       = (ex_vel_env\<lparr>self_action_scaling := Some [Fin 1, Fin 1]\<rparr>, Inr [Fin 1, Fin 1])
   \<and> snd (action_scaling
        (foldl (AntVelEnv_call ex_dynamics ex_f32 ex_uniform) ex_vel_env
           [CallResetTask ex_vel_task, CallSampleTasks 2]))
       = Inr [Fin 1, Fin 1]
   \<and> action_scaling
        (foldl (AntVelEnv_call ex_dynamics ex_f32 ex_uniform)
           (fst (action_scaling
              (foldl (AntVelEnv_call ex_dynamics ex_f32 ex_uniform) ex_vel_env
                 [CallResetTask ex_vel_task, CallSampleTasks 2])))
           [CallStep ex_action, CallResetTask ex_no_key, CallSampleTasks 1])
       = (foldl (AntVelEnv_call ex_dynamics ex_f32 ex_uniform)
           (fst (action_scaling
              (foldl (AntVelEnv_call ex_dynamics ex_f32 ex_uniform) ex_vel_env
                 [CallResetTask ex_vel_task, CallSampleTasks 2])))
           [CallStep ex_action, CallResetTask ex_no_key, CallSampleTasks 1],
          Inr [Fin 1, Fin 1])
   \<and> ex_dir_env = AntDirEnv_init ex_base ex_no_key
   \<and> self_action_scaling ex_dir_env = None
   \<and> length (action_space_low ex_dir_env) = length (action_space_high ex_dir_env)
   \<and> action_scaling ex_dir_env
       = (ex_dir_env\<lparr>self_action_scaling := Some [Fin 1, Fin 1]\<rparr>, Inr [Fin 1, Fin 1])
   \<and> snd (action_scaling
        (foldl (AntDirEnv_call ex_dynamics ex_f32 ex_binomial) ex_dir_env
           [CallResetTask ex_dir_task, CallSampleTasks 2]))
       = Inr [Fin 1, Fin 1]
   \<and> action_scaling
        (foldl (AntDirEnv_call ex_dynamics ex_f32 ex_binomial)
           (fst (action_scaling
              (foldl (AntDirEnv_call ex_dynamics ex_f32 ex_binomial) ex_dir_env
                 [CallResetTask ex_dir_task, CallSampleTasks 2])))
           [CallStep ex_action, CallResetTask ex_no_key, CallSampleTasks 1])
       = (foldl (AntDirEnv_call ex_dynamics ex_f32 ex_binomial)
           (fst (action_scaling
              (foldl (AntDirEnv_call ex_dynamics ex_f32 ex_binomial) ex_dir_env
                 [CallResetTask ex_dir_task, CallSampleTasks 2])))
           [CallStep ex_action, CallResetTask ex_no_key, CallSampleTasks 1],
          Inr [Fin 1, Fin 1])
   \<and> ex_pos_env = AntPosEnv_init ex_base ex_no_key
   \<and> self_action_scaling ex_pos_env = None
   \<and> length (action_space_low ex_pos_env) = length (action_space_high ex_pos_env)
   \<and> action_scaling ex_pos_env
       = (ex_pos_env\<lparr>self_action_scaling := Some [Fin 1, Fin 1]\<rparr>, Inr [Fin 1, Fin 1])
   \<and> snd (action_scaling
        (foldl (AntPosEnv_call ex_dynamics ex_f32 ex_uniform) ex_pos_env
           [CallResetTask ex_pos_task, CallSampleTasks 2]))
       = Inr [Fin 1, Fin 1]
   \<and> action_scaling
        (foldl (AntPosEnv_call ex_dynamics ex_f32 ex_uniform)
           (fst (action_scaling
              (foldl (AntPosEnv_call ex_dynamics ex_f32 ex_uniform) ex_pos_env
                 [CallResetTask ex_pos_task, CallSampleTasks 2])))
           [CallStep ex_action, CallResetTask ex_no_key, CallSampleTasks 1])
       = (foldl (AntPosEnv_call ex_dynamics ex_f32 ex_uniform)
           (fst (action_scaling
              (foldl (AntPosEnv_call ex_dynamics ex_f32 ex_uniform) ex_pos_env
                 [CallResetTask ex_pos_task, CallSampleTasks 2])))
           [CallStep ex_action, CallResetTask ex_no_key, CallSampleTasks 1],
          Inr [Fin 1, Fin 1])
   \<and> self_action_scaling ex_base = Some []
   \<and> scaling_of_bounds (action_space_low ex_base) (action_space_high ex_base)
       = [Fin 1, Fin 1]
   \<and> action_scaling ex_base = (ex_base, Inr [])
   \<and> action_scaling
        (foldl (AntVelEnv_call ex_dynamics ex_f32 ex_uniform)
           (ex_vel_env\<lparr>self_action_scaling := Some [Fin 7, Fin 7]\<rparr>)
           [CallStep ex_action, CallResetTask ex_vel_task, CallActionScaling])
       = (foldl (AntVelEnv_call ex_dynamics ex_f32 ex_uniform)
           (ex_vel_env\<lparr>self_action_scaling := Some [Fin 7, Fin 7]\<rparr>)
           [CallStep ex_action, CallResetTask ex_vel_task, CallActionScaling],
          Inr [Fin 7, Fin 7])
   \<and> action_scaling
        (foldl (AntDirEnv_call ex_dynamics ex_f32 ex_binomial)
           (ex_dir_env\<lparr>self_action_scaling := Some [Fin 7, Fin 7]\<rparr>)
           [CallStep ex_action, CallResetTask ex_dir_task, CallActionScaling])
       = (foldl (AntDirEnv_call ex_dynamics ex_f32 ex_binomial)
           (ex_dir_env\<lparr>self_action_scaling := Some [Fin 7, Fin 7]\<rparr>)
           [CallStep ex_action, CallResetTask ex_dir_task, CallActionScaling],
          Inr [Fin 7, Fin 7])
   \<and> action_scaling
        (foldl (AntPosEnv_call ex_dynamics ex_f32 ex_uniform)
           (ex_pos_env\<lparr>self_action_scaling := Some [Fin 7, Fin 7]\<rparr>)
           [CallStep ex_action, CallResetTask ex_pos_task, CallActionScaling])
       = (foldl (AntPosEnv_call ex_dynamics ex_f32 ex_uniform)
           (ex_pos_env\<lparr>self_action_scaling := Some [Fin 7, Fin 7]\<rparr>)
           [CallStep ex_action, CallResetTask ex_pos_task, CallActionScaling],
          Inr [Fin 7, Fin 7])"
proof -
  note held = action_scaling_computed_once
    [THEN conjunct2, THEN conjunct2, THEN conjunct2, THEN conjunct2, THEN conjunct1,
     rule_format]
  note vheld = action_scaling_computed_once
    [THEN conjunct2, THEN conjunct2, THEN conjunct2, THEN conjunct2, THEN conjunct2,
     THEN conjunct1, rule_format]
  note dheld = action_scaling_computed_once
    [THEN conjunct2, THEN conjunct2, THEN conjunct2, THEN conjunct2, THEN conjunct2,
     THEN conjunct2, THEN conjunct1, rule_format]
  note pheld = action_scaling_computed_once
    [THEN conjunct2, THEN conjunct2, THEN conjunct2, THEN conjunct2, THEN conjunct2,
     THEN conjunct2, THEN conjunct2, THEN conjunct1, rule_format]
  note vel = action_scaling_computed_once
    [THEN conjunct2, THEN conjunct2, THEN conjunct2, THEN conjunct2, THEN conjunct2,
     THEN conjunct2, THEN conjunct2, THEN conjunct2, THEN conjunct1, rule_format]
  note dir = action_scaling_computed_once
    [THEN conjunct2, THEN conjunct2, THEN conjunct2, THEN conjunct2, THEN conjunct2,
     THEN conjunct2, THEN conjunct2, THEN conjunct2, THEN conjunct2, THEN conjunct1,
     rule_format]
  note pos = action_scaling_computed_once
    [THEN conjunct2, THEN conjunct2, THEN conjunct2, THEN conjunct2, THEN conjunct2,
     THEN conjunct2, THEN conjunct2, THEN conjunct2, THEN conjunct2, THEN conjunct2,
     rule_format]
  have hb: "self_action_scaling ex_base = Some []"
    by (simp add: ex_base_def)
  have sb: "scaling_of_bounds (action_space_low ex_base) (action_space_high ex_base)
      = [Fin 1, Fin 1]"
    by (simp add: ex_base_def scaling_of_bounds_def)
  note rb = held[where cenv = ex_base and v = "[]", OF hb]
  have vh: "self_action_scaling (ex_vel_env\<lparr>self_action_scaling := Some [Fin 7, Fin 7]\<rparr>)
      = Some [Fin 7, Fin 7]"
    by simp
  have dh: "self_action_scaling (ex_dir_env\<lparr>self_action_scaling := Some [Fin 7, Fin 7]\<rparr>)
      = Some [Fin 7, Fin 7]"
    by simp
  have ph: "self_action_scaling (ex_pos_env\<lparr>self_action_scaling := Some [Fin 7, Fin 7]\<rparr>)
      = Some [Fin 7, Fin 7]"
    by simp
  note vr = vheld[where venv = "ex_vel_env\<lparr>self_action_scaling := Some [Fin 7, Fin 7]\<rparr>"
      and v = "[Fin 7, Fin 7]" and fd = ex_dynamics and ?f32.0 = ex_f32 and vrng = ex_uniform
      and vcalls = "[CallStep ex_action, CallResetTask ex_vel_task, CallActionScaling]",
      OF vh]
  note dr = dheld[where denv = "ex_dir_env\<lparr>self_action_scaling := Some [Fin 7, Fin 7]\<rparr>"
      and v = "[Fin 7, Fin 7]" and fd = ex_dynamics and ?f32.0 = ex_f32 and drng = ex_binomial
      and dcalls = "[CallStep ex_action, CallResetTask ex_dir_task, CallActionScaling]",
      OF dh]
  note pr = pheld[where penv = "ex_pos_env\<lparr>self_action_scaling := Some [Fin 7, Fin 7]\<rparr>"
      and v = "[Fin 7, Fin 7]" and fd = ex_dynamics and ?f32.0 = ex_f32 and prng = ex_uniform
      and pcalls = "[CallStep ex_action, CallResetTask ex_pos_task, CallActionScaling]",
      OF ph]
  have vn: "self_action_scaling ex_vel_env = None"
    by (simp add: ex_vel_env_def AntVelEnv_init_def)
  have vl: "length (action_space_low ex_vel_env) = length (action_space_high ex_vel_env)"
    by (simp add: ex_vel_env_def AntVelEnv_init_def ex_base_def)
  have vs: "scaling_of_bounds (action_space_low ex_vel_env) (action_space_high ex_vel_env)
      = [Fin 1, Fin 1]"
    by (simp add: ex_vel_env_def AntVelEnv_init_def ex_base_def scaling_of_bounds_def)
  note vall = vel[where venv = ex_vel_env and fd = ex_dynamics and ?f32.0 = ex_f32
      and vrng = ex_uniform
      and vcalls = "[CallResetTask ex_vel_task, CallSampleTasks 2]"
      and vlater = "[CallStep ex_action, CallResetTask ex_no_key, CallSampleTasks 1]",
      OF conjI[OF vn vl], unfolded vs]
  have dn: "self_action_scaling ex_dir_env = None"
    by (simp add: ex_dir_env_def AntDirEnv_init_def)
  have dl: "length (action_space_low ex_dir_env) = length (action_space_high ex_dir_env)"
    by (simp add: ex_dir_env_def AntDirEnv_init_def ex_base_def)
  have ds: "scaling_of_bounds (action_space_low ex_dir_env) (action_space_high ex_dir_env)
      = [Fin 1, Fin 1]"
    by (simp add: ex_dir_env_def AntDirEnv_init_def ex_base_def scaling_of_bounds_def)
  note dall = dir[where denv = ex_dir_env and fd = ex_dynamics and ?f32.0 = ex_f32
      and drng = ex_binomial
      and dcalls = "[CallResetTask ex_dir_task, CallSampleTasks 2]"
      and dlater = "[CallStep ex_action, CallResetTask ex_no_key, CallSampleTasks 1]",
      OF conjI[OF dn dl], unfolded ds]
  have pn: "self_action_scaling ex_pos_env = None"
    by (simp add: ex_pos_env_def AntPosEnv_init_def)
  have pl: "length (action_space_low ex_pos_env) = length (action_space_high ex_pos_env)"
    by (simp add: ex_pos_env_def AntPosEnv_init_def ex_base_def)
  have ps: "scaling_of_bounds (action_space_low ex_pos_env) (action_space_high ex_pos_env)
      = [Fin 1, Fin 1]"
    by (simp add: ex_pos_env_def AntPosEnv_init_def ex_base_def scaling_of_bounds_def)
  note pall = pos[where penv = ex_pos_env and fd = ex_dynamics and ?f32.0 = ex_f32
      and prng = ex_uniform
      and pcalls = "[CallResetTask ex_pos_task, CallSampleTasks 2]"
      and plater = "[CallStep ex_action, CallResetTask ex_no_key, CallSampleTasks 1]",
      OF conjI[OF pn pl], unfolded ps]
  show ?thesis
    by (intro conjI ex_vel_env_def ex_dir_env_def ex_pos_env_def vn vl dn dl pn pl
          hb sb rb vr dr pr
          vall[THEN conjunct1] vall[THEN conjunct2, THEN conjunct1]
          vall[THEN conjunct2, THEN conjunct2]
          dall[THEN conjunct1] dall[THEN conjunct2, THEN conjunct1]
          dall[THEN conjunct2, THEN conjunct2]
          pall[THEN conjunct1] pall[THEN conjunct2, THEN conjunct1]
          pall[THEN conjunct2, THEN conjunct2])
qed

subsection \<open>Sampled tasks\<close>

lemma vel_sample_tasks_eq:
  "snd (AntVelEnv_sample_tasks uniform env n)
     = map (\<lambda>velocity. [''velocity'' \<mapsto> velocity])
         (fst (uniform (Fin 0.0) (Fin 3.0) n (np_random env)))"
  by (cases "uniform (Fin 0.0) (Fin 3.0) n (np_random env)")
     (simp add: AntVelEnv_sample_tasks_def Let_def)

lemma vel_sampled_has_key:
  assumes "t \<in> set (snd (AntVelEnv_sample_tasks uniform env n))"
  shows "\<exists>val. t = [''velocity'' \<mapsto> val]"
  using assms unfolding vel_sample_tasks_eq by auto

lemma vel_step_info_task:
  assumes "AntVelEnv_step fd f32 env a = (env', Inr (obs, reward, done, infos))"
  shows "infos ''task'' = Some (ITask (vel_task env)) \<and> vel_task env' = vel_task env"
proof -
  from vel_step_Inr[OF assms] have "infos ''task'' = Some (ITask (vel_task env))"
    by auto
  moreover from vel_step_task[of fd f32 env a] assms have "vel_task env' = vel_task env"
    by simp
  ultimately show ?thesis by blast
qed

lemma dir_sample_tasks_eq:
  "snd (AntDirEnv_sample_tasks binomial_np env n)
     = map (\<lambda>b. [''direction'' \<mapsto> 2 * b - 1])
         (fst (binomial_np 1 0.5 n (np_random env)))"
  by (cases "binomial_np 1 0.5 n (np_random env)")
     (simp add: AntDirEnv_sample_tasks_def Let_def)

lemma dir_sampled_has_key:
  assumes "t \<in> set (snd (AntDirEnv_sample_tasks binomial_np env n))"
  shows "\<exists>val. t = [''direction'' \<mapsto> val]"
  using assms unfolding dir_sample_tasks_eq by auto

lemma dir_step_info_task:
  assumes "AntDirEnv_step fd f32 env a = (env', Inr (obs, reward, done, infos))"
  shows "infos ''task'' = Some (ITask (dir_task env)) \<and> dir_task env' = dir_task env"
proof -
  from dir_step_Inr[OF assms] have "infos ''task'' = Some (ITask (dir_task env))"
    by auto
  moreover from dir_step_task[of fd f32 env a] assms have "dir_task env' = dir_task env"
    by simp
  ultimately show ?thesis by blast
qed

lemma pos_sample_tasks_eq:
  "snd (AntPosEnv_sample_tasks uniform env n)
     = map (\<lambda>position. [''position'' \<mapsto> position])
         (reshape_rows n 2 (fst (uniform (Fin (- 3.0)) (Fin 3.0) (n * 2) (np_random env))))"
  by (cases "uniform (Fin (- 3.0)) (Fin 3.0) (n * 2) (np_random env)")
     (simp add: AntPosEnv_sample_tasks_def Let_def)

lemma pos_sampled_has_key:
  assumes "t \<in> set (snd (AntPosEnv_sample_tasks uniform env n))"
  shows "\<exists>val. t = [''position'' \<mapsto> val]"
  using assms unfolding pos_sample_tasks_eq by auto

lemma pos_step_info_task:
  assumes "AntPosEnv_step fd f32 env a = (env', Inr (obs, reward, done, infos))"
  shows "infos ''task'' = Some (ITask (pos_task env)) \<and> pos_task env' = pos_task env"
proof -
  from pos_step_Inr[OF assms] have "infos ''task'' = Some (ITask (pos_task env))"
    by auto
  moreover from pos_step_task[of fd f32 env a] assms have "pos_task env' = pos_task env"
    by simp
  ultimately show ?thesis by blast
qed

text \<open>
  C6. In every variant a record returned by \<open>sample_tasks\<close> is accepted by
  \<open>reset_task\<close>, which stores it as it is; the next returning step reports that very
  record under \<open>task\<close>; and the stored record stays the same through any calls other
  than \<open>reset_task\<close>, so no method changes a record.
\<close>

theorem sampled_task_round_trip:
  "(tv \<in> set (snd (AntVelEnv_sample_tasks vrng vsampler n)) \<longrightarrow>
      snd (AntVelEnv_reset_task venv tv) = Inr ()
      \<and> vel_task (fst (AntVelEnv_reset_task venv tv)) = tv
      \<and> (AntVelEnv_step fd f32 (fst (AntVelEnv_reset_task venv tv)) a
            = (venv', Inr (vobs, vreward, vdone, vinfos)) \<longrightarrow>
          vinfos ''task'' = Some (ITask tv) \<and> vel_task venv' = tv)
      \<and> ((\<forall>t'. CallResetTask t' \<notin> set vcalls) \<longrightarrow>
          vel_task (foldl (AntVelEnv_call fd f32 vrng) (fst (AntVelEnv_reset_task venv tv)) vcalls)
            = tv))
   \<and> (td \<in> set (snd (AntDirEnv_sample_tasks drng dsampler n)) \<longrightarrow>
      snd (AntDirEnv_reset_task denv td) = Inr ()
      \<and> dir_task (fst (AntDirEnv_reset_task denv td)) = td
      \<and> (AntDirEnv_step fd f32 (fst (AntDirEnv_reset_task denv td)) a
            = (denv', Inr (dobs, dreward, ddone, dinfos)) \<longrightarrow>
          dinfos ''task'' = Some (ITask td) \<and> dir_task denv' = td)
      \<and> ((\<forall>t'. CallResetTask t' \<notin> set dcalls) \<longrightarrow>
          dir_task (foldl (AntDirEnv_call fd f32 drng) (fst (AntDirEnv_reset_task denv td)) dcalls)
            = td))
   \<and> (tp \<in> set (snd (AntPosEnv_sample_tasks prng psampler n)) \<longrightarrow>
      snd (AntPosEnv_reset_task penv tp) = Inr ()
      \<and> pos_task (fst (AntPosEnv_reset_task penv tp)) = tp
      \<and> (AntPosEnv_step fd f32 (fst (AntPosEnv_reset_task penv tp)) a
            = (penv', Inr (pobs, preward, pdone, pinfos)) \<longrightarrow>
          pinfos ''task'' = Some (ITask tp) \<and> pos_task penv' = tp)
      \<and> ((\<forall>t'. CallResetTask t' \<notin> set pcalls) \<longrightarrow>
          pos_task (foldl (AntPosEnv_call fd f32 prng) (fst (AntPosEnv_reset_task penv tp)) pcalls)
            = tp))"
proof (intro conjI impI)
  assume m: "tv \<in> set (snd (AntVelEnv_sample_tasks vrng vsampler n))"
  from vel_sampled_has_key[OF m] obtain val where t: "tv = [''velocity'' \<mapsto> val]"
    by blast
  then have k: "tv ''velocity'' = Some val" by simp
  have r: "AntVelEnv_reset_task venv tv
      = (venv\<lparr>vel_task := tv, goal_vel := val\<rparr>, Inr ())"
    using k by (simp add: AntVelEnv_reset_task_def)
  show "snd (AntVelEnv_reset_task venv tv) = Inr ()" by (simp add: r)
  show s: "vel_task (fst (AntVelEnv_reset_task venv tv)) = tv" by (simp add: r)
  show "vinfos ''task'' = Some (ITask tv)"
    if "AntVelEnv_step fd f32 (fst (AntVelEnv_reset_task venv tv)) a
            = (venv', Inr (vobs, vreward, vdone, vinfos))"
    using vel_step_info_task[OF that] s by simp
  show "vel_task venv' = tv"
    if "AntVelEnv_step fd f32 (fst (AntVelEnv_reset_task venv tv)) a
            = (venv', Inr (vobs, vreward, vdone, vinfos))"
    using vel_step_info_task[OF that] s by simp
  show "vel_task (foldl (AntVelEnv_call fd f32 vrng) (fst (AntVelEnv_reset_task venv tv)) vcalls)
            = tv"
    if "\<forall>t'. CallResetTask t' \<notin> set vcalls"
    using vel_calls_task[OF that, of fd f32 vrng "fst (AntVelEnv_reset_task venv tv)"] s
    by simp
next
  assume m: "td \<in> set (snd (AntDirEnv_sample_tasks drng dsampler n))"
  from dir_sampled_has_key[OF m] obtain val where t: "td = [''direction'' \<mapsto> val]"
    by blast
  then have k: "td ''direction'' = Some val" by simp
  have r: "AntDirEnv_reset_task denv td
      = (denv\<lparr>dir_task := td, goal_dir := val\<rparr>, Inr ())"
    using k by (simp add: AntDirEnv_reset_task_def)
  show "snd (AntDirEnv_reset_task denv td) = Inr ()" by (simp add: r)
  show s: "dir_task (fst (AntDirEnv_reset_task denv td)) = td" by (simp add: r)
  show "dinfos ''task'' = Some (ITask td)"
    if "AntDirEnv_step fd f32 (fst (AntDirEnv_reset_task denv td)) a
            = (denv', Inr (dobs, dreward, ddone, dinfos))"
    using dir_step_info_task[OF that] s by simp
  show "dir_task denv' = td"
    if "AntDirEnv_step fd f32 (fst (AntDirEnv_reset_task denv td)) a
            = (denv', Inr (dobs, dreward, ddone, dinfos))"
    using dir_step_info_task[OF that] s by simp
  show "dir_task (foldl (AntDirEnv_call fd f32 drng) (fst (AntDirEnv_reset_task denv td)) dcalls)
            = td"
    if "\<forall>t'. CallResetTask t' \<notin> set dcalls"
    using dir_calls_task[OF that, of fd f32 drng "fst (AntDirEnv_reset_task denv td)"] s
    by simp
next
  assume m: "tp \<in> set (snd (AntPosEnv_sample_tasks prng psampler n))"
  from pos_sampled_has_key[OF m] obtain val where t: "tp = [''position'' \<mapsto> val]"
    by blast
  then have k: "tp ''position'' = Some val" by simp
  have r: "AntPosEnv_reset_task penv tp
      = (penv\<lparr>pos_task := tp, goal_pos := val\<rparr>, Inr ())"
    using k by (simp add: AntPosEnv_reset_task_def)
  show "snd (AntPosEnv_reset_task penv tp) = Inr ()" by (simp add: r)
  show s: "pos_task (fst (AntPosEnv_reset_task penv tp)) = tp" by (simp add: r)
  show "pinfos ''task'' = Some (ITask tp)"
    if "AntPosEnv_step fd f32 (fst (AntPosEnv_reset_task penv tp)) a
            = (penv', Inr (pobs, preward, pdone, pinfos))"
    using pos_step_info_task[OF that] s by simp
  show "pos_task penv' = tp"
    if "AntPosEnv_step fd f32 (fst (AntPosEnv_reset_task penv tp)) a
            = (penv', Inr (pobs, preward, pdone, pinfos))"
    using pos_step_info_task[OF that] s by simp
  show "pos_task (foldl (AntPosEnv_call fd f32 prng) (fst (AntPosEnv_reset_task penv tp)) pcalls)
            = tp"
    if "\<forall>t'. CallResetTask t' \<notin> set pcalls"
    using pos_calls_task[OF that, of fd f32 prng "fst (AntPosEnv_reset_task penv tp)"] s
    by simp
qed

theorem sampled_task_round_trip_witness:
  "ex_vel_task \<in> set (snd (AntVelEnv_sample_tasks ex_uniform ex_vel_env 2))
   \<and> snd (AntVelEnv_reset_task ex_vel_env ex_vel_task) = Inr ()
   \<and> vel_task (fst (AntVelEnv_reset_task ex_vel_env ex_vel_task)) = ex_vel_task
   \<and> ex_vel_infos ''task'' = Some (ITask ex_vel_task)
   \<and> vel_task ex_vel_env_after = ex_vel_task
   \<and> vel_task (foldl (AntVelEnv_call ex_dynamics ex_f32 ex_uniform)
        (fst (AntVelEnv_reset_task ex_vel_env ex_vel_task))
        [CallStep ex_action, CallSampleTasks 3, CallActionScaling, CallGetCurrentObs])
       = ex_vel_task
   \<and> ex_dir_task \<in> set (snd (AntDirEnv_sample_tasks ex_binomial ex_dir_env 2))
   \<and> snd (AntDirEnv_reset_task ex_dir_env ex_dir_task) = Inr ()
   \<and> dir_task (fst (AntDirEnv_reset_task ex_dir_env ex_dir_task)) = ex_dir_task
   \<and> ex_dir_infos ''task'' = Some (ITask ex_dir_task)
   \<and> dir_task ex_dir_env_after = ex_dir_task
   \<and> dir_task (foldl (AntDirEnv_call ex_dynamics ex_f32 ex_binomial)
        (fst (AntDirEnv_reset_task ex_dir_env ex_dir_task))
        [CallStep ex_action, CallSampleTasks 3, CallActionScaling, CallGetCurrentObs])
       = ex_dir_task
   \<and> ex_pos_task \<in> set (snd (AntPosEnv_sample_tasks ex_uniform ex_pos_env 1))
   \<and> snd (AntPosEnv_reset_task ex_pos_env ex_pos_task) = Inr ()
   \<and> pos_task (fst (AntPosEnv_reset_task ex_pos_env ex_pos_task)) = ex_pos_task
   \<and> ex_pos_infos ''task'' = Some (ITask ex_pos_task)
   \<and> pos_task ex_pos_env_after = ex_pos_task
   \<and> pos_task (foldl (AntPosEnv_call ex_dynamics ex_f32 ex_uniform)
        (fst (AntPosEnv_reset_task ex_pos_env ex_pos_task))
        [CallStep ex_action, CallSampleTasks 3, CallActionScaling, CallGetCurrentObs])
       = ex_pos_task"
proof -
  note vel = sampled_task_round_trip [THEN conjunct1, rule_format]
  note dir = sampled_task_round_trip [THEN conjunct2, THEN conjunct1, rule_format]
  note pos = sampled_task_round_trip [THEN conjunct2, THEN conjunct2, rule_format]
  have vm: "ex_vel_task \<in> set (snd (AntVelEnv_sample_tasks ex_uniform ex_vel_env 2))"
    by (simp add: AntVelEnv_sample_tasks_def ex_uniform_def ex_vel_env_def AntVelEnv_init_def ex_base_def
        ex_vel_task_def eval_nat_numeral)
  note vall = vel[where tv = ex_vel_task and vrng = ex_uniform and vsampler = ex_vel_env
      and n = 2 and venv = ex_vel_env and fd = ex_dynamics and ?f32.0 = ex_f32
      and a = ex_action and venv' = ex_vel_env_after and vobs = ex_obs
      and vinfos = ex_vel_infos and vdone = False
      and vcalls = "[CallStep ex_action, CallSampleTasks 3, CallActionScaling,
         CallGetCurrentObs]", OF vm]
  have vc: "\<forall>t'. CallResetTask t' \<notin>
      set [CallStep ex_action, CallSampleTasks 3, CallActionScaling, CallGetCurrentObs]"
    by simp
  note vstep = vall[THEN conjunct2, THEN conjunct2, THEN conjunct1, rule_format,
      OF ex_vel_run[unfolded ex_vel_env_reset_def]]
  note vkeep = vall[THEN conjunct2, THEN conjunct2, THEN conjunct2, rule_format, OF vc[rule_format]]
  have dm: "ex_dir_task \<in> set (snd (AntDirEnv_sample_tasks ex_binomial ex_dir_env 2))"
    by (simp add: AntDirEnv_sample_tasks_def ex_binomial_def ex_dir_env_def AntDirEnv_init_def ex_base_def
        ex_dir_task_def eval_nat_numeral)
  note dall = dir[where td = ex_dir_task and drng = ex_binomial and dsampler = ex_dir_env
      and n = 2 and denv = ex_dir_env and fd = ex_dynamics and ?f32.0 = ex_f32
      and a = ex_action and denv' = ex_dir_env_after and dobs = ex_obs
      and dinfos = ex_dir_infos and ddone = False
      and dcalls = "[CallStep ex_action, CallSampleTasks 3, CallActionScaling,
         CallGetCurrentObs]", OF dm]
  have dc: "\<forall>t'. CallResetTask t' \<notin>
      set [CallStep ex_action, CallSampleTasks 3, CallActionScaling, CallGetCurrentObs]"
    by simp
  note dstep = dall[THEN conjunct2, THEN conjunct2, THEN conjunct1, rule_format,
      OF ex_dir_run[unfolded ex_dir_env_reset_def]]
  note dkeep = dall[THEN conjunct2, THEN conjunct2, THEN conjunct2, rule_format, OF dc[rule_format]]
  have pm: "ex_pos_task \<in> set (snd (AntPosEnv_sample_tasks ex_uniform ex_pos_env 1))"
    by (simp add: AntPosEnv_sample_tasks_def ex_uniform_def ex_pos_env_def AntPosEnv_init_def ex_base_def
        ex_pos_task_def eval_nat_numeral)
  note pall = pos[where tp = ex_pos_task and prng = ex_uniform and psampler = ex_pos_env
      and n = 1 and penv = ex_pos_env and fd = ex_dynamics and ?f32.0 = ex_f32
      and a = ex_action and penv' = ex_pos_env_after and pobs = ex_obs
      and pinfos = ex_pos_infos and pdone = False
      and pcalls = "[CallStep ex_action, CallSampleTasks 3, CallActionScaling,
         CallGetCurrentObs]", OF pm]
  have pc: "\<forall>t'. CallResetTask t' \<notin>
      set [CallStep ex_action, CallSampleTasks 3, CallActionScaling, CallGetCurrentObs]"
    by simp
  note pstep = pall[THEN conjunct2, THEN conjunct2, THEN conjunct1, rule_format,
      OF ex_pos_run[unfolded ex_pos_env_reset_def]]
  note pkeep = pall[THEN conjunct2, THEN conjunct2, THEN conjunct2, rule_format, OF pc[rule_format]]
  show ?thesis
    by (intro conjI vm dm pm vall[THEN conjunct1] vall[THEN conjunct2, THEN conjunct1]
          dall[THEN conjunct1] dall[THEN conjunct2, THEN conjunct1]
          pall[THEN conjunct1] pall[THEN conjunct2, THEN conjunct1]
          vstep[THEN conjunct1] vstep[THEN conjunct2]
          dstep[THEN conjunct1] dstep[THEN conjunct2]
          pstep[THEN conjunct1] pstep[THEN conjunct2] vkeep dkeep pkeep)
qed

subsection \<open>Records without the variant's key\<close>

text \<open>
  C5, as stated, fails: \<open>reset_task\<close> reads the key with \<open>task['velocity']\<close>, so a record
  without it raises \<open>KeyError\<close>, and the goal is not set to the default. On the instance
  whose goal velocity is 2, the record without keys raises and the goal stays 2.
\<close>

theorem reset_task_without_key_raises:
  "ex_no_key ''velocity'' = None
   \<and> snd (AntVelEnv_reset_task ex_vel_env_reset ex_no_key) = Inl KeyError
   \<and> goal_vel (fst (AntVelEnv_reset_task ex_vel_env_reset ex_no_key)) = Fin 2"
  by (simp add: AntVelEnv_reset_task_def ex_no_key_def ex_vel_env_reset_eq)

text \<open>
  C5, amended. A record without the variant's key is accepted by the constructor, which
  stores it and falls back to the default goal (\<open>0.0\<close>, \<open>+1\<close>, \<open>(0, 0)\<close>); passed to
  \<open>reset_task\<close>, it raises \<open>KeyError\<close> in every variant.
\<close>

theorem missing_key_defaults_at_construction_only:
  "(vtask ''velocity'' = None \<longrightarrow>
      vel_task (AntVelEnv_init base vtask) = vtask
      \<and> goal_vel (AntVelEnv_init base vtask) = Fin 0.0
      \<and> snd (AntVelEnv_reset_task venv vtask) = Inl KeyError)
   \<and> (dtask ''direction'' = None \<longrightarrow>
      dir_task (AntDirEnv_init base dtask) = dtask
      \<and> goal_dir (AntDirEnv_init base dtask) = 1
      \<and> snd (AntDirEnv_reset_task denv dtask) = Inl KeyError)
   \<and> (ptask ''position'' = None \<longrightarrow>
      pos_task (AntPosEnv_init base ptask) = ptask
      \<and> goal_pos (AntPosEnv_init base ptask) = [Fin 0, Fin 0]
      \<and> snd (AntPosEnv_reset_task penv ptask) = Inl KeyError)"
  by (simp add: AntVelEnv_init_def AntDirEnv_init_def AntPosEnv_init_def
      AntVelEnv_reset_task_def AntDirEnv_reset_task_def AntPosEnv_reset_task_def
      eval_nat_numeral)

theorem missing_key_defaults_at_construction_only_witness:
  "ex_no_key ''velocity'' = (None :: fl option)
   \<and> goal_vel (AntVelEnv_init ex_base ex_no_key) = Fin 0.0
   \<and> snd (AntVelEnv_reset_task ex_vel_env ex_no_key) = Inl KeyError
   \<and> ex_no_key ''direction'' = (None :: int option)
   \<and> goal_dir (AntDirEnv_init ex_base ex_no_key) = 1
   \<and> snd (AntDirEnv_reset_task ex_dir_env ex_no_key) = Inl KeyError
   \<and> ex_no_key ''position'' = (None :: fl list option)
   \<and> goal_pos (AntPosEnv_init ex_base ex_no_key) = [Fin 0, Fin 0]
   \<and> snd (AntPosEnv_reset_task ex_pos_env ex_no_key) = Inl KeyError"
proof -
  note vel = missing_key_defaults_at_construction_only [THEN conjunct1, rule_format]
  note dir = missing_key_defaults_at_construction_only
    [THEN conjunct2, THEN conjunct1, rule_format]
  note pos = missing_key_defaults_at_construction_only
    [THEN conjunct2, THEN conjunct2, rule_format]
  have kv: "ex_no_key ''velocity'' = (None :: fl option)" by (simp add: ex_no_key_def)
  have kd: "ex_no_key ''direction'' = (None :: int option)" by (simp add: ex_no_key_def)
  have kp: "ex_no_key ''position'' = (None :: fl list option)" by (simp add: ex_no_key_def)
  note v = vel[where vtask = ex_no_key and base = ex_base and venv = ex_vel_env, OF kv]
  note d = dir[where dtask = ex_no_key and base = ex_base and denv = ex_dir_env, OF kd]
  note p = pos[where ptask = ex_no_key and base = ex_base and penv = ex_pos_env, OF kp]
  show ?thesis
    by (intro conjI kv kd kp v[THEN conjunct2, THEN conjunct1] v[THEN conjunct2, THEN conjunct2]
          d[THEN conjunct2, THEN conjunct1] d[THEN conjunct2, THEN conjunct2]
          p[THEN conjunct2, THEN conjunct1] p[THEN conjunct2, THEN conjunct2])
qed

subsection \<open>What sample\_tasks returns\<close>

text \<open>
  C7. In the Direction variant \<open>sample_tasks(n)\<close> asks the random source for \<open>n\<close> draws
  of \<open>binomial(1, p=0.5)\<close> and returns, for each draw \<open>b\<close> in order, the record
  \<open>{direction: 2*b - 1}\<close>. A source that answers with \<open>n\<close> draws from \<open>{0, 1}\<close>
  gives \<open>n\<close> records, each with a direction in \<open>{-1, +1}\<close>.
\<close>

theorem dir_sample_tasks_directions:
  assumes "binomial_np 1 0.5 n (np_random env) = (draws, g)"
    and "length draws = n"
    and "\<forall>b \<in> set draws. b = 0 \<or> b = 1"
  shows "snd (AntDirEnv_sample_tasks binomial_np env n)
      = map (\<lambda>b. [''direction'' \<mapsto> 2 * b - 1]) draws
    \<and> length (snd (AntDirEnv_sample_tasks binomial_np env n)) = n
    \<and> (\<forall>t \<in> set (snd (AntDirEnv_sample_tasks binomial_np env n)).
          \<exists>d. t = [''direction'' \<mapsto> d] \<and> (d = - 1 \<or> d = 1))"
proof -
  have eq: "snd (AntDirEnv_sample_tasks binomial_np env n)
      = map (\<lambda>b. [''direction'' \<mapsto> 2 * b - 1]) draws"
    using assms(1) by (simp add: dir_sample_tasks_eq)
  have len: "length (snd (AntDirEnv_sample_tasks binomial_np env n)) = n"
    using assms(2) by (simp add: eq)
  have rng: "\<exists>d. t = [''direction'' \<mapsto> d] \<and> (d = - 1 \<or> d = 1)"
    if "t \<in> set (snd (AntDirEnv_sample_tasks binomial_np env n))" for t
  proof -
    from that obtain b where b: "b \<in> set draws" and t: "t = [''direction'' \<mapsto> 2 * b - 1]"
      unfolding eq by auto
    from assms(3) b have "2 * b - 1 = - 1 \<or> 2 * b - 1 = 1" by auto
    with t show ?thesis by blast
  qed
  from eq len rng show ?thesis by blast
qed

theorem dir_sample_tasks_directions_witness:
  "ex_binomial 1 0.5 3 (np_random ex_dir_env) = ([0, 1, 0], 3)
   \<and> snd (AntDirEnv_sample_tasks ex_binomial ex_dir_env 3)
       = [[''direction'' \<mapsto> - 1], [''direction'' \<mapsto> 1], [''direction'' \<mapsto> - 1]]
   \<and> length (snd (AntDirEnv_sample_tasks ex_binomial ex_dir_env 3)) = 3"
proof -
  have h1: "ex_binomial 1 0.5 3 (np_random ex_dir_env) = ([0, 1, 0], 3)"
    by (simp add: ex_binomial_def ex_dir_env_def AntDirEnv_init_def ex_base_def
        eval_nat_numeral)
  have h2: "length [0 :: int, 1, 0] = 3" by simp
  have h3: "\<forall>b \<in> set [0 :: int, 1, 0]. b = 0 \<or> b = 1" by simp
  note t = dir_sample_tasks_directions[where binomial_np = ex_binomial and env = ex_dir_env
      and n = 3 and draws = "[0, 1, 0]" and g = 3, OF h1 h2 h3]
  have "snd (AntDirEnv_sample_tasks ex_binomial ex_dir_env 3)
       = [[''direction'' \<mapsto> - 1], [''direction'' \<mapsto> 1], [''direction'' \<mapsto> - 1]]"
    using t[THEN conjunct1] by simp
  with h1 t[THEN conjunct2, THEN conjunct1] show ?thesis by blast
qed

lemma length_reshape_rows: "length (reshape_rows n w xs) = n"
  by (induction n arbitrary: xs) simp_all

lemma reshape_rows_row:
  assumes "length xs = n * w" and "row \<in> set (reshape_rows n w xs)"
  shows "length row = w \<and> set row \<subseteq> set xs"
  using assms
proof (induction n arbitrary: xs)
  case 0
  then show ?case by simp
next
  case (Suc n)
  from Suc.prems(1) have len: "length (drop w xs) = n * w" by simp
  from Suc.prems(2) consider "row = take w xs" | "row \<in> set (reshape_rows n w (drop w xs))"
    by auto
  then show ?case
  proof cases
    case 1
    with Suc.prems(1) show ?thesis by (auto dest: in_set_takeD)
  next
    case 2
    from Suc.IH[OF len 2] show ?thesis by (auto dest: in_set_dropD)
  qed
qed

lemma concat_reshape_rows:
  "length xs = n * w \<Longrightarrow> concat (reshape_rows n w xs) = xs"
proof (induction n arbitrary: xs)
  case 0
  then show ?case by simp
next
  case (Suc n)
  from Suc.prems have "length (drop w xs) = n * w" by simp
  from Suc.IH[OF this] show ?case by simp
qed

text \<open>
  C8. In the Velocity variant \<open>sample_tasks(n)\<close> asks the random source for \<open>n\<close> draws
  of \<open>uniform(0.0, 3.0)\<close> and returns the records \<open>{velocity: v}\<close> of these draws, in
  order. In the Position variant it asks for \<open>n * 2\<close> draws of \<open>uniform(-3.0, 3.0)\<close>, cuts
  them into \<open>n\<close> rows of 2, and returns the records \<open>{position: row}\<close>. A source that
  answers with as many draws as asked, each within the bounds it was given, yields \<open>n\<close>
  records with every velocity in \<open>[0.0, 3.0]\<close>, and \<open>n\<close> records whose positions have
  exactly 2 components, each in \<open>[-3.0, 3.0]\<close>.
\<close>

theorem vel_pos_sample_tasks_ranges:
  "(uniform (Fin 0.0) (Fin 3.0) n (np_random venv) = (velocities, g)
      \<and> length velocities = n
      \<and> (\<forall>x \<in> set velocities. fle (Fin 0.0) x \<and> fle x (Fin 3.0)) \<longrightarrow>
      snd (AntVelEnv_sample_tasks uniform venv n)
        = map (\<lambda>velocity. [''velocity'' \<mapsto> velocity]) velocities
      \<and> length (snd (AntVelEnv_sample_tasks uniform venv n)) = n
      \<and> (\<forall>t \<in> set (snd (AntVelEnv_sample_tasks uniform venv n)).
            \<exists>x. t = [''velocity'' \<mapsto> x] \<and> fle (Fin 0.0) x \<and> fle x (Fin 3.0)))
   \<and> (uniform (Fin (- 3.0)) (Fin 3.0) (n * 2) (np_random penv) = (flat, g')
      \<and> length flat = n * 2
      \<and> (\<forall>x \<in> set flat. fle (Fin (- 3.0)) x \<and> fle x (Fin 3.0)) \<longrightarrow>
      snd (AntPosEnv_sample_tasks uniform penv n)
        = map (\<lambda>position. [''position'' \<mapsto> position]) (reshape_rows n 2 flat)
      \<and> concat (reshape_rows n 2 flat) = flat
      \<and> length (snd (AntPosEnv_sample_tasks uniform penv n)) = n
      \<and> (\<forall>t \<in> set (snd (AntPosEnv_sample_tasks uniform penv n)).
            \<exists>q. t = [''position'' \<mapsto> q] \<and> length q = 2
              \<and> (\<forall>x \<in> set q. fle (Fin (- 3.0)) x \<and> fle x (Fin 3.0))))"
proof (intro conjI impI)
  assume h: "uniform (Fin 0.0) (Fin 3.0) n (np_random venv) = (velocities, g)
      \<and> length velocities = n
      \<and> (\<forall>x \<in> set velocities. fle (Fin 0.0) x \<and> fle x (Fin 3.0))"
  then show eq: "snd (AntVelEnv_sample_tasks uniform venv n)
        = map (\<lambda>velocity. [''velocity'' \<mapsto> velocity]) velocities"
    by (simp add: vel_sample_tasks_eq)
  from h show "length (snd (AntVelEnv_sample_tasks uniform venv n)) = n"
    by (simp add: eq)
  from h show "\<forall>t \<in> set (snd (AntVelEnv_sample_tasks uniform venv n)).
            \<exists>x. t = [''velocity'' \<mapsto> x] \<and> fle (Fin 0.0) x \<and> fle x (Fin 3.0)"
    unfolding eq by auto
next
  assume h: "uniform (Fin (- 3.0)) (Fin 3.0) (n * 2) (np_random penv) = (flat, g')
      \<and> length flat = n * 2
      \<and> (\<forall>x \<in> set flat. fle (Fin (- 3.0)) x \<and> fle x (Fin 3.0))"
  then have len: "length flat = n * 2"
    and rng: "\<forall>x \<in> set flat. fle (Fin (- 3.0)) x \<and> fle x (Fin 3.0)"
    by blast+
  from h show eq: "snd (AntPosEnv_sample_tasks uniform penv n)
        = map (\<lambda>position. [''position'' \<mapsto> position]) (reshape_rows n 2 flat)"
    by (simp add: pos_sample_tasks_eq)
  show "concat (reshape_rows n 2 flat) = flat"
    using len by (rule concat_reshape_rows)
  show "length (snd (AntPosEnv_sample_tasks uniform penv n)) = n"
    by (simp add: eq length_reshape_rows)
  show "\<forall>t \<in> set (snd (AntPosEnv_sample_tasks uniform penv n)).
            \<exists>q. t = [''position'' \<mapsto> q] \<and> length q = 2
              \<and> (\<forall>x \<in> set q. fle (Fin (- 3.0)) x \<and> fle x (Fin 3.0))"
  proof
    fix t
    assume "t \<in> set (snd (AntPosEnv_sample_tasks uniform penv n))"
    then obtain q where q: "q \<in> set (reshape_rows n 2 flat)" and t: "t = [''position'' \<mapsto> q]"
      unfolding eq by auto
    from reshape_rows_row[OF len q] rng
    have "length q = 2 \<and> (\<forall>x \<in> set q. fle (Fin (- 3.0)) x \<and> fle x (Fin 3.0))"
      by blast
    with t show "\<exists>q. t = [''position'' \<mapsto> q] \<and> length q = 2
              \<and> (\<forall>x \<in> set q. fle (Fin (- 3.0)) x \<and> fle x (Fin 3.0))"
      by blast
  qed
qed

theorem vel_pos_sample_tasks_ranges_witness:
  "ex_uniform (Fin 0.0) (Fin 3.0) 3 (np_random ex_vel_env) = ([Fin 2, Fin 1, Fin 2], 3)
   \<and> snd (AntVelEnv_sample_tasks ex_uniform ex_vel_env 3)
       = [[''velocity'' \<mapsto> Fin 2], [''velocity'' \<mapsto> Fin 1], [''velocity'' \<mapsto> Fin 2]]
   \<and> length (snd (AntVelEnv_sample_tasks ex_uniform ex_vel_env 3)) = 3
   \<and> ex_uniform (Fin (- 3.0)) (Fin 3.0) (2 * 2) (np_random ex_pos_env)
       = ([Fin 1, Fin (- 1), Fin 1, Fin (- 1)], 4)
   \<and> snd (AntPosEnv_sample_tasks ex_uniform ex_pos_env 2)
       = [[''position'' \<mapsto> [Fin 1, Fin (- 1)]], [''position'' \<mapsto> [Fin 1, Fin (- 1)]]]
   \<and> length (snd (AntPosEnv_sample_tasks ex_uniform ex_pos_env 2)) = 2"
proof -
  note vel = vel_pos_sample_tasks_ranges [THEN conjunct1, rule_format]
  note pos = vel_pos_sample_tasks_ranges [THEN conjunct2, rule_format]
  have v1: "ex_uniform (Fin 0.0) (Fin 3.0) 3 (np_random ex_vel_env) = ([Fin 2, Fin 1, Fin 2], 3)"
    by (simp add: ex_uniform_def ex_vel_env_def AntVelEnv_init_def ex_base_def
        eval_nat_numeral)
  have v2: "length [Fin 2, Fin 1, Fin 2] = 3" by simp
  have v3: "\<forall>x \<in> set [Fin 2, Fin 1, Fin 2]. fle (Fin 0.0) x \<and> fle x (Fin 3.0)" by simp
  note v = vel[where uniform = ex_uniform and venv = ex_vel_env and n = 3
      and velocities = "[Fin 2, Fin 1, Fin 2]" and g = 3, OF conjI[OF v1 conjI[OF v2 v3]]]
  have p1: "ex_uniform (Fin (- 3.0)) (Fin 3.0) (2 * 2) (np_random ex_pos_env)
       = ([Fin 1, Fin (- 1), Fin 1, Fin (- 1)], 4)"
    by (simp add: ex_uniform_def ex_pos_env_def AntPosEnv_init_def ex_base_def
        upt_conv_Cons)
  have p2: "length [Fin 1, Fin (- 1), Fin 1, Fin (- 1)] = 2 * 2" by simp
  have p3: "\<forall>x \<in> set [Fin 1, Fin (- 1), Fin 1, Fin (- 1)].
      fle (Fin (- 3.0)) x \<and> fle x (Fin 3.0)"
    by simp
  note p = pos[where uniform = ex_uniform and penv = ex_pos_env and n = 2
      and flat = "[Fin 1, Fin (- 1), Fin 1, Fin (- 1)]" and g' = 4,
      OF conjI[OF p1 conjI[OF p2 p3]]]
  have vs: "snd (AntVelEnv_sample_tasks ex_uniform ex_vel_env 3)
       = [[''velocity'' \<mapsto> Fin 2], [''velocity'' \<mapsto> Fin 1], [''velocity'' \<mapsto> Fin 2]]"
    using v[THEN conjunct1] by simp
  have ps: "snd (AntPosEnv_sample_tasks ex_uniform ex_pos_env 2)
       = [[''position'' \<mapsto> [Fin 1, Fin (- 1)]], [''position'' \<mapsto> [Fin 1, Fin (- 1)]]]"
    using p[THEN conjunct1] by (simp add: eval_nat_numeral)
  show ?thesis
    by (intro conjI v1 p1 vs ps v[THEN conjunct2, THEN conjunct1]
          p[THEN conjunct2, THEN conjunct2, THEN conjunct1])
qed

subsection \<open>The observation\<close>

lemma np_clip_unit_range:
  assumes "\<not> isnan c"
  shows "fle (Fin (- 1)) (np_clip c (Fin (- 1)) (Fin 1))
    \<and> fle (np_clip c (Fin (- 1)) (Fin 1)) (Fin 1)"
  using assms by (cases c) (simp_all add: np_clip_def np_maximum_def np_minimum_def)

lemma np_clip_unit_inside:
  assumes "fle (Fin (- 1)) c" and "fle c (Fin 1)"
  shows "np_clip c (Fin (- 1)) (Fin 1) = c"
  using assms by (cases c) (auto simp: np_clip_def np_maximum_def np_minimum_def)

lemma np_clip_unit_outside:
  "(\<not> isnan c \<and> \<not> fle (Fin (- 1)) c \<longrightarrow> np_clip c (Fin (- 1)) (Fin 1) = Fin (- 1))
   \<and> (\<not> isnan c \<and> \<not> fle c (Fin 1) \<longrightarrow> np_clip c (Fin (- 1)) (Fin 1) = Fin 1)"
  by (cases c) (simp_all add: np_clip_def np_maximum_def np_minimum_def)

text \<open>
  C9. \<open>get_current_obs\<close> returns one flat vector: the joint positions, then the joint
  velocities, then the contact forces row by row with each component clipped to
  \<open>[-1, 1]\<close>, then the torso's orientation matrix row by row, then the torso's
  centre-of-mass position; each entry is narrowed to the fixed-width float type (\<open>f32\<close>)
  and nothing else is done to it. The clip leaves a component within \<open>[-1, 1]\<close> as it is,
  moves one below to \<open>-1\<close> and one above to \<open>1\<close>; a NaN component stays NaN.
\<close>

theorem get_current_obs_layout:
  "get_current_obs f32 env
     = map f32 (qpos (sim env))
       @ map f32 (qvel (sim env))
       @ map (\<lambda>c. f32 (np_clip c (Fin (- 1)) (Fin 1))) (concat (cfrc_ext (sim env)))
       @ map f32 (concat (body_xmat_torso (sim env)))
       @ map f32 (body_com_torso (sim env))
   \<and> length (get_current_obs f32 env)
       = length (qpos (sim env)) + length (qvel (sim env))
         + length (concat (cfrc_ext (sim env)))
         + length (concat (body_xmat_torso (sim env)))
         + length (body_com_torso (sim env))
   \<and> (\<not> isnan c \<longrightarrow>
        fle (Fin (- 1)) (np_clip c (Fin (- 1)) (Fin 1))
        \<and> fle (np_clip c (Fin (- 1)) (Fin 1)) (Fin 1))
   \<and> (fle (Fin (- 1)) c \<and> fle c (Fin 1) \<longrightarrow> np_clip c (Fin (- 1)) (Fin 1) = c)
   \<and> (\<not> isnan c \<and> \<not> fle (Fin (- 1)) c \<longrightarrow> np_clip c (Fin (- 1)) (Fin 1) = Fin (- 1))
   \<and> (\<not> isnan c \<and> \<not> fle c (Fin 1) \<longrightarrow> np_clip c (Fin (- 1)) (Fin 1) = Fin 1)
   \<and> (isnan c \<longrightarrow> isnan (np_clip c (Fin (- 1)) (Fin 1)))"
proof -
  have flat: "concat (map (map (\<lambda>c. np_clip c (Fin (- 1)) (Fin 1))) (cfrc_ext (sim env)))
      = map (\<lambda>c. np_clip c (Fin (- 1)) (Fin 1)) (concat (cfrc_ext (sim env)))"
    by (simp add: map_concat)
  have layout: "get_current_obs f32 env
     = map f32 (qpos (sim env))
       @ map f32 (qvel (sim env))
       @ map (\<lambda>c. f32 (np_clip c (Fin (- 1)) (Fin 1))) (concat (cfrc_ext (sim env)))
       @ map f32 (concat (body_xmat_torso (sim env)))
       @ map f32 (body_com_torso (sim env))"
    unfolding get_current_obs_def flat by (simp add: comp_def)
  have len: "length (get_current_obs f32 env)
       = length (qpos (sim env)) + length (qvel (sim env))
         + length (concat (cfrc_ext (sim env)))
         + length (concat (body_xmat_torso (sim env)))
         + length (body_com_torso (sim env))"
    unfolding layout by simp
  have nan: "isnan c \<longrightarrow> isnan (np_clip c (Fin (- 1)) (Fin 1))"
    by (simp add: np_clip_def np_maximum_def np_minimum_def)
  from layout len nan np_clip_unit_range[of c] np_clip_unit_inside[of c]
    np_clip_unit_outside[of c]
  show ?thesis by blast
qed

theorem get_current_obs_layout_witness:
  "get_current_obs ex_f32 ex_vel_env_after = ex_obs
   \<and> length (get_current_obs ex_f32 ex_vel_env_after) = 3 + 1 + 2 + 4 + 3
   \<and> fle (Fin (- 1)) (np_clip PInf (Fin (- 1)) (Fin 1))
   \<and> fle (np_clip PInf (Fin (- 1)) (Fin 1)) (Fin 1)
   \<and> fle (Fin (- 1)) (Fin (- 0.5)) \<and> fle (Fin (- 0.5)) (Fin 1)
   \<and> np_clip (Fin (- 0.5)) (Fin (- 1)) (Fin 1) = Fin (- 0.5)
   \<and> \<not> isnan (Fin 2) \<and> \<not> fle (Fin 2) (Fin 1)
   \<and> np_clip (Fin 2) (Fin (- 1)) (Fin 1) = Fin 1
   \<and> \<not> isnan NInf \<and> \<not> fle (Fin (- 1)) NInf
   \<and> np_clip NInf (Fin (- 1)) (Fin 1) = Fin (- 1)
   \<and> isnan (np_clip NaN (Fin (- 1)) (Fin 1))"
proof -
  note lay = get_current_obs_layout
    [where ?f32.0 = ex_f32 and env = ex_vel_env_after and c = NaN, THEN conjunct1]
  note len = get_current_obs_layout
    [where ?f32.0 = ex_f32 and env = ex_vel_env_after and c = NaN,
     THEN conjunct2, THEN conjunct1]
  note range = get_current_obs_layout
    [where ?f32.0 = ex_f32 and env = ex_vel_env_after and c = PInf,
     THEN conjunct2, THEN conjunct2, THEN conjunct1, rule_format]
  note inside = get_current_obs_layout
    [where ?f32.0 = ex_f32 and env = ex_vel_env_after and c = "Fin (- 0.5)",
     THEN conjunct2, THEN conjunct2, THEN conjunct2, THEN conjunct1, rule_format]
  note below = get_current_obs_layout
    [where ?f32.0 = ex_f32 and env = ex_vel_env_after and c = NInf,
     THEN conjunct2, THEN conjunct2, THEN conjunct2, THEN conjunct2, THEN conjunct1,
     rule_format]
  note above = get_current_obs_layout
    [where ?f32.0 = ex_f32 and env = ex_vel_env_after and c = "Fin 2",
     THEN conjunct2, THEN conjunct2, THEN conjunct2, THEN conjunct2, THEN conjunct2,
     THEN conjunct1, rule_format]
  note nan = get_current_obs_layout
    [where ?f32.0 = ex_f32 and env = ex_vel_env_after and c = NaN,
     THEN conjunct2, THEN conjunct2, THEN conjunct2, THEN conjunct2, THEN conjunct2,
     THEN conjunct2, rule_format]
  have s: "sim ex_vel_env_after = ex_physics_after"
    by (simp add: ex_vel_env_after_def)
  have o: "get_current_obs ex_f32 ex_vel_env_after = ex_obs"
    unfolding lay s
    by (simp add: ex_physics_after_def ex_f32_def ex_obs_def np_clip_def np_maximum_def
        np_minimum_def)
  have l: "length (get_current_obs ex_f32 ex_vel_env_after) = 3 + 1 + 2 + 4 + 3"
    unfolding len s by (simp add: ex_physics_after_def)
  have i1: "fle (Fin (- 1)) (Fin (- 0.5))" and i2: "fle (Fin (- 0.5)) (Fin 1)" by simp_all
  have a1: "\<not> isnan (Fin 2)" and a2: "\<not> fle (Fin 2) (Fin 1)" by simp_all
  have b1: "\<not> isnan NInf" and b2: "\<not> fle (Fin (- 1)) NInf" by simp_all
  have n1: "isnan NaN" by simp
  have r1: "\<not> isnan PInf" by simp
  show ?thesis
    by (intro conjI o l range[OF r1, THEN conjunct1] range[OF r1, THEN conjunct2]
          i1 i2 a1 a2 b1 b2 inside[OF conjI[OF i1 i2]] above[OF conjI[OF a1 a2]]
          below[OF conjI[OF b1 b2]] nan[OF n1])
qed

subsection \<open>When a step returns\<close>

text \<open>
  The results above speak of steps that return. A step returns whenever the simulator
  advances without raising, the quantities read of it have the expected shape, the action
  has the length of the bounds, and the state vector has an entry at index 2 or a
  non-finite entry.
\<close>

lemma length_scaling_of_bounds:
  "length lb = length ub \<Longrightarrow> length (scaling_of_bounds lb ub) = length ub"
  by (simp add: scaling_of_bounds_def)

lemma access_returns:
  assumes "length lb = length ub" and "cache_ok lb ub env"
  shows "action_scaling env = (fst (action_scaling env), Inr (scaling_of_bounds lb ub))"
  using cache_ok_access[OF assms] by (cases "action_scaling env") simp

lemma index_at_0_nonempty: "xs \<noteq> [] \<Longrightarrow> index_at xs 0 = Inr (hd xs)"
  by (cases xs) (simp_all add: index_at_def)

lemma vel_step_returns:
  assumes "fd (sim env) a = (p, None)"
    and "body_comvel_torso p \<noteq> []"
    and "cache_ok lb ub env"
    and "length lb = length ub"
    and "length a = length ub"
    and "2 < length (state_vector p) \<or> \<not> list_all isfinite (state_vector p)"
  shows "\<exists>env' obs reward done infos.
    AntVelEnv_step fd f32 env a = (env', Inr (obs, reward, done, infos))"
proof -
  have first: "index_at (body_comvel_torso p) 0 = Inr (hd (body_comvel_torso p))"
    using assms(2) by (simp add: index_at_0_nonempty)
  have acc: "action_scaling (env\<lparr>sim := p\<rparr>)
      = (fst (action_scaling (env\<lparr>sim := p\<rparr>)), Inr (scaling_of_bounds lb ub))"
    using access_returns[OF assms(4) cache_ok_sim[OF assms(3)]] .
  have div: "broadcast2 fdiv a (scaling_of_bounds lb ub)
      = Inr (map2 fdiv a (scaling_of_bounds lb ub))"
    using assms(5) length_scaling_of_bounds[OF assms(4)] by (simp add: broadcast2_def)
  from notdone_of_returns[OF assms(6)] obtain nd where
    nd: "notdone_of (state_vector p) = Inr nd" by blast
  from vel_step_eval[where fd = fd and env = env and a = a and p = p and ?f32.0 = f32,
      OF assms(1) first acc div nd]
  show ?thesis by blast
qed

lemma dir_step_returns:
  assumes "fd (sim env) a = (p, None)"
    and "body_comvel_torso p \<noteq> []"
    and "cache_ok lb ub env"
    and "length lb = length ub"
    and "length a = length ub"
    and "2 < length (state_vector p) \<or> \<not> list_all isfinite (state_vector p)"
  shows "\<exists>env' obs reward done infos.
    AntDirEnv_step fd f32 env a = (env', Inr (obs, reward, done, infos))"
proof -
  have first: "index_at (body_comvel_torso p) 0 = Inr (hd (body_comvel_torso p))"
    using assms(2) by (simp add: index_at_0_nonempty)
  have acc: "action_scaling (env\<lparr>sim := p\<rparr>)
      = (fst (action_scaling (env\<lparr>sim := p\<rparr>)), Inr (scaling_of_bounds lb ub))"
    using access_returns[OF assms(4) cache_ok_sim[OF assms(3)]] .
  have div: "broadcast2 fdiv a (scaling_of_bounds lb ub)
      = Inr (map2 fdiv a (scaling_of_bounds lb ub))"
    using assms(5) length_scaling_of_bounds[OF assms(4)] by (simp add: broadcast2_def)
  from notdone_of_returns[OF assms(6)] obtain nd where
    nd: "notdone_of (state_vector p) = Inr nd" by blast
  from dir_step_eval[where fd = fd and env = env and a = a and p = p and ?f32.0 = f32,
      OF assms(1) first acc div nd]
  show ?thesis by blast
qed

lemma pos_step_returns:
  assumes "fd (sim env) a = (p, None)"
    and "length (take 2 (body_com_torso p)) = length (goal_pos env)"
    and "cache_ok lb ub env"
    and "length lb = length ub"
    and "length a = length ub"
    and "2 < length (state_vector p) \<or> \<not> list_all isfinite (state_vector p)"
  shows "\<exists>env' obs reward done infos.
    AntPosEnv_step fd f32 env a = (env', Inr (obs, reward, done, infos))"
proof -
  have first: "broadcast2 fsub (take 2 (body_com_torso p)) (goal_pos env)
      = Inr (map2 fsub (take 2 (body_com_torso p)) (goal_pos env))"
    using assms(2) by (simp add: broadcast2_def)
  have acc: "action_scaling (env\<lparr>sim := p\<rparr>)
      = (fst (action_scaling (env\<lparr>sim := p\<rparr>)), Inr (scaling_of_bounds lb ub))"
    using access_returns[OF assms(4) cache_ok_sim[OF assms(3)]] .
  have div: "broadcast2 fdiv a (scaling_of_bounds lb ub)
      = Inr (map2 fdiv a (scaling_of_bounds lb ub))"
    using assms(5) length_scaling_of_bounds[OF assms(4)] by (simp add: broadcast2_def)
  from notdone_of_returns[OF assms(6)] obtain nd where
    nd: "notdone_of (state_vector p) = Inr nd" by blast
  from pos_step_eval[where fd = fd and env = env and a = a and p = p and ?f32.0 = f32,
      OF assms(1) first acc div nd]
  show ?thesis by blast
qed


end
